theory Spec2Isabelle
  imports Complex_Main
begin

section \<open>Messages, errors and standard output\<close>

text \<open>
  The sniffer hands the printers request, reply and event objects. The fields read by
  \<^verbatim>\<open>zktraffic/cli/zk.py\<close> are \<^verbatim>\<open>client\<close>, \<^verbatim>\<open>xid\<close>, \<^verbatim>\<open>opcode\<close>, \<^verbatim>\<open>timestamp\<close>,
  \<^verbatim>\<open>path\<close> and \<^verbatim>\<open>name\<close>. Timestamps are Python floats; they are modelled as reals, so
  rounding is not part of the model.
\<close>

record msg =
  client :: string
  xid :: int
  opcode :: int
  timestamp :: real
  path :: string
  name :: string

text \<open>
  Modelled from the spec: \<^verbatim>\<open>OpCodes.CLOSE\<close> is declared in \<^verbatim>\<open>zktraffic.base.zookeeper\<close>,
  which is not part of the sources at hand. The spec only calls it the structural close
  operation; ZooKeeper's closeSession number is used, and no general theorem below
  depends on the number.
\<close>

definition CLOSE :: int where
  "CLOSE = - 11"

text \<open>
  The exceptions the code can raise. \<open>PreconditionViolation\<close> stands for a call of the
  percentile helper on an empty sample, which the spec rules out for its callers.
\<close>

datatype error =
  IOError | IndexError | KeyError | ValueError string | ZeroDivisionError
| PreconditionViolation | SystemExit int

text \<open>
  What reaches \<^verbatim>\<open>sys.stdout\<close>, one chunk per \<^verbatim>\<open>sys.stdout.write\<close> call:
  a formatted message (colour seed when colours are on, position in its group, message),
  a line of the count summary, the latency progress line, the carriage return that clears
  it, and the latency table (headers and rows).
\<close>

datatype chunk =
  Formatted "string option" nat msg
| CountLine string int
| Collecting int int
| ClearLine
| Table "string list" "(string \<times> real \<times> real \<times> real) list"

text \<open>
  Standard output: the batches already flushed (one per \<^verbatim>\<open>flush()\<close>), the chunks
  written since the last flush, and whether the pipe is broken, in which case writing
  raises \<^verbatim>\<open>IOError\<close>.
\<close>

record stdout =
  flushed :: "chunk list list"
  buffer :: "chunk list"
  broken :: bool

definition stdout_init :: stdout where
  "stdout_init = \<lparr>flushed = [], buffer = [], broken = False\<rparr>"

definition stdout_write :: "stdout \<Rightarrow> chunk \<Rightarrow> error + stdout" where
  "stdout_write so c =
     (if broken so then Inl IOError else Inr (so\<lparr>buffer := buffer so @ [c]\<rparr>))"

definition stdout_flush :: "stdout \<Rightarrow> error + stdout" where
  "stdout_flush so =
     (if broken so then Inl IOError
      else Inr (so\<lparr>flushed := flushed so @ [buffer so], buffer := []\<rparr>))"

fun write_all :: "stdout \<Rightarrow> chunk list \<Rightarrow> error + stdout" where
  "write_all so [] = Inr so"
| "write_all so (c # cs) =
     (case stdout_write so c of Inl e \<Rightarrow> Inl e | Inr so' \<Rightarrow> write_all so' cs)"

section \<open>The pending-request table\<close>

text \<open>
  \<^verbatim>\<open>class Requests\<close>: a \<^verbatim>\<open>defaultdict(list)\<close> from xid to the requests seen with that xid,
  in arrival order.
\<close>

type_synonym Requests = "int \<rightharpoonup> msg list"

definition Requests_init :: Requests where
  "Requests_init = Map.empty"

definition add :: "Requests \<Rightarrow> msg \<Rightarrow> Requests" where
  "add requests_by_xid req =
     requests_by_xid(xid req \<mapsto>
       (case requests_by_xid (xid req) of None \<Rightarrow> [] | Some l \<Rightarrow> l) @ [req])"

definition pop :: "Requests \<Rightarrow> int \<Rightarrow> msg list \<times> Requests" where
  "pop requests_by_xid x =
     (case requests_by_xid x of
        Some l \<Rightarrow> (l, requests_by_xid(x := None))
      | None \<Rightarrow> ([], requests_by_xid))"

text \<open>
  \<^verbatim>\<open>self._requests_by_client[c]\<close> on a \<^verbatim>\<open>defaultdict(Requests)\<close>: reading a client
  that is not yet a key stores an empty \<^verbatim>\<open>Requests\<close> for it.
\<close>

type_synonym table = "string \<rightharpoonup> Requests"

definition getitem :: "table \<Rightarrow> string \<Rightarrow> Requests \<times> table" where
  "getitem t c =
     (case t c of
        Some r \<Rightarrow> (r, t)
      | None \<Rightarrow> (Requests_init, t(c \<mapsto> Requests_init)))"

definition table_add :: "table \<Rightarrow> msg \<Rightarrow> table" where
  "table_add t req = (let (r, t') = getitem t (client req) in t'(client req \<mapsto> add r req))"

definition table_pop :: "table \<Rightarrow> string \<Rightarrow> int \<Rightarrow> msg list \<times> table" where
  "table_pop t c x =
     (let (r, t') = getitem t c; (reqs, r') = pop r x in (reqs, t'(c \<mapsto> r')))"

section \<open>BasePrinter: writing one group\<close>

text \<open>
  \<^verbatim>\<open>simple_write\<close> and \<^verbatim>\<open>colored_write\<close> write every message of the group with its
  position (the arrow prefix of \<^verbatim>\<open>right_arrow(i)\<close>) and flush once. The colour is chosen
  from the client of the first message; reading \<^verbatim>\<open>msgs[0]\<close> of an empty group raises.
\<close>

definition simple_write :: "stdout \<Rightarrow> msg list \<Rightarrow> error + stdout" where
  "simple_write so msgs =
     (case write_all so (map (\<lambda>(i, m). Formatted None i m) (enumerate 0 msgs)) of
        Inl e \<Rightarrow> Inl e
      | Inr so' \<Rightarrow> stdout_flush so')"

definition colored_write :: "stdout \<Rightarrow> msg list \<Rightarrow> error + stdout" where
  "colored_write so msgs =
     (case msgs of
        [] \<Rightarrow> Inl IndexError
      | m0 # _ \<Rightarrow>
          (case write_all so
                  (map (\<lambda>(i, m). Formatted (Some (client m0)) i m) (enumerate 0 msgs)) of
             Inl e \<Rightarrow> Inl e
           | Inr so' \<Rightarrow> stdout_flush so'))"

definition write_msgs :: "bool \<Rightarrow> stdout \<Rightarrow> msg list \<Rightarrow> error + stdout" where
  "write_msgs colors = (if colors then colored_write else simple_write)"

text \<open>The chunks of one group as \<open>write_msgs\<close> (the \<^verbatim>\<open>self.write\<close> chosen in \<^verbatim>\<open>__init__\<close>) renders them.\<close>

definition group :: "bool \<Rightarrow> msg list \<Rightarrow> chunk list" where
  "group colors msgs =
     map (\<lambda>(i, m). Formatted (if colors then Some (client (hd msgs)) else None) i m)
       (enumerate 0 msgs)"

text \<open>
  The printer is a daemon thread; the sniffer calls its handlers from another thread and
  \<^verbatim>\<open>main\<close> calls \<^verbatim>\<open>cancel\<close> on an interrupt. A run is a list of actions, each executed
  as a whole: a handler call, one iteration of the thread's loop (\<open>Tick\<close>), or
  \<^verbatim>\<open>cancel()\<close>.
\<close>

datatype action = OnRequest msg | OnReply msg | OnEvent msg | Tick | Cancel

datatype thread = Running | Finished | Died error

section \<open>DefaultPrinter (the paired engine)\<close>

record DefaultPrinter =
  dp_colors :: bool
  dp_loopback :: bool
  dp_requests_by_client :: table
  dp_replies :: "msg list"
  dp_stdout :: stdout
  dp_thread :: thread

definition DefaultPrinter_init :: "bool \<Rightarrow> bool \<Rightarrow> DefaultPrinter" where
  "DefaultPrinter_init colors loopback =
     \<lparr>dp_colors = colors, dp_loopback = loopback, dp_requests_by_client = Map.empty,
      dp_replies = [], dp_stdout = stdout_init, dp_thread = Running\<rparr>"

text \<open>
  One iteration of \<^verbatim>\<open>while True\<close> in \<^verbatim>\<open>DefaultPrinter.run\<close>: with no queued reply the
  thread sleeps and continues; otherwise the reply is taken from the queue, its request
  list is popped, and when the list is not empty the group is written. \<^verbatim>\<open>IOError\<close> ends
  the loop; any other exception ends the thread.
\<close>

definition DefaultPrinter_run_iter :: "DefaultPrinter \<Rightarrow> DefaultPrinter" where
  "DefaultPrinter_run_iter s =
     (case dp_replies s of
        [] \<Rightarrow> s
      | rep # rest \<Rightarrow>
          (let (reqs, t) = table_pop (dp_requests_by_client s) (client rep) (xid rep);
               s1 = s\<lparr>dp_replies := rest, dp_requests_by_client := t\<rparr>
           in if reqs = [] then s1
              else
                (let msgs = (if dp_loopback s then take 1 reqs @ [rep] else reqs @ [rep])
                 in case write_msgs (dp_colors s) (dp_stdout s) msgs of
                      Inr so \<Rightarrow> s1\<lparr>dp_stdout := so\<rparr>
                    | Inl IOError \<Rightarrow> s1\<lparr>dp_thread := Finished\<rparr>
                    | Inl e \<Rightarrow> s1\<lparr>dp_thread := Died e\<rparr>)))"

definition DefaultPrinter_request_handler ::
  "DefaultPrinter \<Rightarrow> msg \<Rightarrow> error + DefaultPrinter" where
  "DefaultPrinter_request_handler s req =
     (if opcode req = CLOSE then
        (case write_msgs (dp_colors s) (dp_stdout s) [req] of
           Inl e \<Rightarrow> Inl e
         | Inr so \<Rightarrow> Inr (s\<lparr>dp_stdout := so\<rparr>))
      else Inr (s\<lparr>dp_requests_by_client := table_add (dp_requests_by_client s) req\<rparr>))"

definition DefaultPrinter_reply_handler ::
  "DefaultPrinter \<Rightarrow> msg \<Rightarrow> error + DefaultPrinter" where
  "DefaultPrinter_reply_handler s rep = Inr (s\<lparr>dp_replies := dp_replies s @ [rep]\<rparr>)"

definition DefaultPrinter_event_handler ::
  "DefaultPrinter \<Rightarrow> msg \<Rightarrow> error + DefaultPrinter" where
  "DefaultPrinter_event_handler s evt =
     (case write_msgs (dp_colors s) (dp_stdout s) [evt] of
        Inl e \<Rightarrow> Inl e
      | Inr so \<Rightarrow> Inr (s\<lparr>dp_stdout := so\<rparr>))"

text \<open>\<^verbatim>\<open>BasePrinter.cancel\<close> is inherited unchanged: it does nothing.\<close>

definition DefaultPrinter_cancel :: "DefaultPrinter \<Rightarrow> error + DefaultPrinter" where
  "DefaultPrinter_cancel s = Inr s"

fun DefaultPrinter_do :: "DefaultPrinter \<Rightarrow> action \<Rightarrow> error + DefaultPrinter" where
  "DefaultPrinter_do s (OnRequest m) = DefaultPrinter_request_handler s m"
| "DefaultPrinter_do s (OnReply m) = DefaultPrinter_reply_handler s m"
| "DefaultPrinter_do s (OnEvent m) = DefaultPrinter_event_handler s m"
| "DefaultPrinter_do s Tick =
     Inr (if dp_thread s = Running then DefaultPrinter_run_iter s else s)"
| "DefaultPrinter_do s Cancel = DefaultPrinter_cancel s"

text \<open>A run stops at the first exception that leaves a handler.\<close>

fun DefaultPrinter_exec :: "DefaultPrinter \<Rightarrow> action list \<Rightarrow> error + DefaultPrinter" where
  "DefaultPrinter_exec s [] = Inr s"
| "DefaultPrinter_exec s (a # as) =
     (case DefaultPrinter_do s a of
        Inl e \<Rightarrow> Inl e
      | Inr s' \<Rightarrow> DefaultPrinter_exec s' as)"

text \<open>The key a reply is matched on, and the requests of a list that carry a reply's key.\<close>

definition key :: "msg \<Rightarrow> string \<times> int" where
  "key m = (client m, xid m)"

definition matching :: "msg list \<Rightarrow> msg \<Rightarrow> msg list" where
  "matching reqs rep = filter (\<lambda>r. key r = key rep) reqs"

text \<open>The requests buffered for a client and xid, empty when there are none.\<close>

definition buffered :: "table \<Rightarrow> string \<times> int \<Rightarrow> msg list" where
  "buffered t k =
     (case t (fst k) of
        None \<Rightarrow> []
      | Some r \<Rightarrow> (case r (snd k) of None \<Rightarrow> [] | Some l \<Rightarrow> l))"

text \<open>
  Reference functions for stating what a run prints: the groups that the queued replies
  produce against the buffered requests, processed in queue order, and the states in
  which the loop is running on an open pipe with nothing left unflushed.
\<close>

fun groups :: "bool \<Rightarrow> (string \<times> int \<Rightarrow> msg list) \<Rightarrow> msg list \<Rightarrow> msg list list" where
  "groups lb b [] = []"
| "groups lb b (rep # rs) =
     (if b (key rep) = [] then []
      else [(if lb then take 1 (b (key rep)) else b (key rep)) @ [rep]])
     @ groups lb (b(key rep := [])) rs"

definition dp_ok :: "DefaultPrinter \<Rightarrow> bool" where
  "dp_ok s \<longleftrightarrow>
     dp_thread s = Running \<and> \<not> broken (dp_stdout s) \<and> buffer (dp_stdout s) = []"

definition dp_pending :: "DefaultPrinter \<Rightarrow> msg list \<Rightarrow> chunk list list" where
  "dp_pending s extra =
     map (group (dp_colors s))
       (groups (dp_loopback s) (buffered (dp_requests_by_client s)) (dp_replies s @ extra))"

section \<open>UnpairedPrinter (the passthrough engine)\<close>

record UnpairedPrinter =
  up_colors :: bool
  up_loopback :: bool
  up_messages :: "msg list"
  up_stdout :: stdout
  up_thread :: thread

definition UnpairedPrinter_init :: "bool \<Rightarrow> bool \<Rightarrow> UnpairedPrinter" where
  "UnpairedPrinter_init colors loopback =
     \<lparr>up_colors = colors, up_loopback = loopback, up_messages = [],
      up_stdout = stdout_init, up_thread = Running\<rparr>"

definition UnpairedPrinter_run_iter :: "UnpairedPrinter \<Rightarrow> UnpairedPrinter" where
  "UnpairedPrinter_run_iter s =
     (case up_messages s of
        [] \<Rightarrow> s
      | m # rest \<Rightarrow>
          (let s1 = s\<lparr>up_messages := rest\<rparr>
           in case write_msgs (up_colors s) (up_stdout s) [m] of
                Inr so \<Rightarrow> s1\<lparr>up_stdout := so\<rparr>
              | Inl IOError \<Rightarrow> s1\<lparr>up_thread := Finished\<rparr>
              | Inl e \<Rightarrow> s1\<lparr>up_thread := Died e\<rparr>))"

definition UnpairedPrinter_handler :: "UnpairedPrinter \<Rightarrow> msg \<Rightarrow> error + UnpairedPrinter" where
  "UnpairedPrinter_handler s m = Inr (s\<lparr>up_messages := up_messages s @ [m]\<rparr>)"

section \<open>Grouping keys\<close>

text \<open>
  Modelled from the spec: \<^verbatim>\<open>parent_path(depth)\<close> is a method of the message classes, which
  are not part of the sources at hand. The spec describes it as the path truncated to
  its first \<open>depth\<close> components.
\<close>

fun take_components :: "nat \<Rightarrow> string \<Rightarrow> string" where
  "take_components n [] = []"
| "take_components n (c # cs) =
     (if c = CHR ''/'' then (case n of 0 \<Rightarrow> [] | Suc k \<Rightarrow> c # take_components k cs)
      else c # take_components n cs)"

definition parent_path :: "msg \<Rightarrow> int \<Rightarrow> string" where
  "parent_path m depth = take_components (nat depth) (path m)"

definition key_of :: "msg \<Rightarrow> string \<Rightarrow> int \<Rightarrow> error + string" where
  "key_of m group_by depth =
     (if group_by = ''path'' then Inr (if depth = 0 then path m else parent_path m depth)
      else if group_by = ''type'' then Inr (name m)
      else if group_by = ''client'' then Inr (client m)
      else Inl (ValueError (''Unknown group: '' @ group_by)))"

text \<open>
  \<^verbatim>\<open>d[k] += 1\<close> on a \<^verbatim>\<open>defaultdict(int)\<close> and \<^verbatim>\<open>d[k].append(x)\<close> on a
  \<^verbatim>\<open>defaultdict(list)\<close>: the value at \<open>k\<close>, or the default when \<open>k\<close> is new, is replaced by
  its image. The dictionary is kept as a list of items in insertion order; the order in
  which Python lists the items of a dictionary is not fixed by the language.
\<close>

fun modify :: "('k \<times> 'v) list \<Rightarrow> 'k \<Rightarrow> 'v \<Rightarrow> ('v \<Rightarrow> 'v) \<Rightarrow> ('k \<times> 'v) list" where
  "modify [] k d f = [(k, f d)]"
| "modify ((k', v) # kvs) k d f =
     (if k' = k then (k', f v) # kvs else (k', v) # modify kvs k d f)"

section \<open>CountPrinter\<close>

record CountPrinter =
  cp_loopback :: bool
  cp_count :: int
  cp_group_by :: string
  cp_aggregation_depth :: int
  cp_seen :: int
  cp_requests :: "(string \<times> int) list"
  cp_stdout :: stdout
  cp_thread :: thread

definition CountPrinter_init :: "int \<Rightarrow> string \<Rightarrow> bool \<Rightarrow> int \<Rightarrow> CountPrinter" where
  "CountPrinter_init count group_by loopback aggregation_depth =
     \<lparr>cp_loopback = loopback, cp_count = count, cp_group_by = group_by,
      cp_aggregation_depth = aggregation_depth, cp_seen = 0, cp_requests = [],
      cp_stdout = stdout_init, cp_thread = Running\<rparr>"







section \<open>Percentiles\<close>

text \<open>
  Modelled from the spec: \<^verbatim>\<open>percentile\<close> is imported from \<^verbatim>\<open>zktraffic.stats.util\<close>, which is
  not part of the sources at hand. The spec's contract: for a non-empty sample sorted
  ascending and a fraction \<open>p\<close>, the value at rank \<open>ceil(p * n)\<close>, counted from 1 and clamped
  to \<open>[1, n]\<close>, with no interpolation; an empty sample violates the precondition.
\<close>

definition rank :: "nat \<Rightarrow> real \<Rightarrow> nat" where
  "rank n p = nat (max 1 (min (int n) \<lceil>p * real n\<rceil>))"

definition percentile :: "real list \<Rightarrow> real \<Rightarrow> real option" where
  "percentile xs p = (if xs = [] then None else Some (xs ! (rank (length xs) p - 1)))"

section \<open>LatencyPrinter\<close>

record LatencyPrinter =
  lp_loopback :: bool
  lp_count :: int
  lp_group_by :: string
  lp_aggregation_depth :: int
  lp_sort_by :: string
  lp_seen :: int
  lp_latencies_by_group :: "(string \<times> real list) list"
  lp_requests_by_client :: table
  lp_replies :: "msg list"
  lp_report_done :: bool
  lp_stdout :: stdout
  lp_thread :: thread

definition LatencyPrinter_init ::
  "int \<Rightarrow> string \<Rightarrow> bool \<Rightarrow> int \<Rightarrow> string \<Rightarrow> LatencyPrinter" where
  "LatencyPrinter_init count group_by loopback aggregation_depth sort_by =
     \<lparr>lp_loopback = loopback, lp_count = count, lp_group_by = group_by,
      lp_aggregation_depth = aggregation_depth, lp_sort_by = sort_by, lp_seen = 0,
      lp_latencies_by_group = [], lp_requests_by_client = Map.empty, lp_replies = [],
      lp_report_done = False, lp_stdout = stdout_init, lp_thread = Running\<rparr>"

text \<open>
  The body of the loop of \<^verbatim>\<open>wait_for_requests\<close>, entered when \<open>_seen < _count\<close>: with no
  queued reply the thread sleeps; an unmatched reply is dropped; for a matched one the
  latency of the first buffered request is appended to its group, the pair is counted and
  the progress line is written. No exception is caught here, so one ends the thread.
\<close>

definition wait_for_requests_iter :: "LatencyPrinter \<Rightarrow> LatencyPrinter" where
  "wait_for_requests_iter s =
     (case lp_replies s of
        [] \<Rightarrow> s
      | rep # rest \<Rightarrow>
          (let (reqs, t) = table_pop (lp_requests_by_client s) (client rep) (xid rep);
               s1 = s\<lparr>lp_replies := rest, lp_requests_by_client := t\<rparr>
           in case reqs of
                [] \<Rightarrow> s1
              | req # _ \<Rightarrow>
                  (case key_of req (lp_group_by s) (lp_aggregation_depth s) of
                     Inl e \<Rightarrow> s1\<lparr>lp_thread := Died e\<rparr>
                   | Inr k \<Rightarrow>
                       (let latency = timestamp rep - timestamp req;
                            s2 = s1\<lparr>lp_latencies_by_group :=
                                      modify (lp_latencies_by_group s) k [] (\<lambda>l. l @ [latency]),
                                    lp_seen := lp_seen s + 1\<rparr>
                        in case stdout_write (lp_stdout s)
                                  (Collecting (lp_seen s2) (lp_count s2)) of
                             Inl e \<Rightarrow> s2\<lparr>lp_thread := Died e\<rparr>
                           | Inr so \<Rightarrow>
                               (case stdout_flush so of
                                  Inl e \<Rightarrow> s2\<lparr>lp_stdout := so, lp_thread := Died e\<rparr>
                                | Inr so' \<Rightarrow> s2\<lparr>lp_stdout := so'\<rparr>)))))"

text \<open>
  The statistics of one group in \<^verbatim>\<open>report\<close>: the mean of the samples, then the two
  percentiles of the sorted samples. Dividing by the length of an empty list raises.
\<close>

definition group_result :: "real list \<Rightarrow> error + real \<times> real \<times> real" where
  "group_result latencies =
     (if length latencies = 0 then Inl ZeroDivisionError
      else
        (let avg = sum_list latencies / real (length latencies);
             sorted_latencies = sort latencies
         in case (percentile sorted_latencies (95 / 100), percentile sorted_latencies (99 / 100)) of
              (Some p95, Some p99) \<Rightarrow> Inr (avg, p95, p99)
            | _ \<Rightarrow> Inl PreconditionViolation))"

fun group_results ::
  "(string \<times> real list) list \<Rightarrow> error + (string \<times> real \<times> real \<times> real) list" where
  "group_results [] = Inr []"
| "group_results ((k, latencies) # rest) =
     (case group_result latencies of
        Inl e \<Rightarrow> Inl e
      | Inr r \<Rightarrow>
          (case group_results rest of
             Inl e \<Rightarrow> Inl e
           | Inr rs \<Rightarrow> Inr ((k, r) # rs)))"

text \<open>
  \<^verbatim>\<open>it[1][self._sort_by]\<close>: the column the rows are sorted by; a name that is not a key of
  the result raises \<^verbatim>\<open>KeyError\<close> as soon as there is a row to sort.
\<close>

definition metric :: "string \<Rightarrow> (real \<times> real \<times> real \<Rightarrow> real) option" where
  "metric sort_by =
     (if sort_by = ''avg'' then Some (\<lambda>(avg, p95, p99). avg)
      else if sort_by = ''p95'' then Some (\<lambda>(avg, p95, p99). p95)
      else if sort_by = ''p99'' then Some (\<lambda>(avg, p95, p99). p99)
      else None)"

definition sorted_rows ::
  "string \<Rightarrow> (string \<times> real \<times> real \<times> real) list
     \<Rightarrow> error + (string \<times> real \<times> real \<times> real) list" where
  "sorted_rows sort_by results =
     (if results = [] then Inr []
      else
        (case metric sort_by of
           None \<Rightarrow> Inl KeyError
         | Some f \<Rightarrow> Inr (sort_key (\<lambda>it. - f (snd it)) results)))"

text \<open>
  What \<^verbatim>\<open>report\<close> writes once it has passed its guard: the carriage return, then, if the
  statistics can be computed, the table, and a flush. The result is the output reached
  and the exception raised on the way, if any.
\<close>

definition report_output :: "LatencyPrinter \<Rightarrow> stdout \<times> error option" where
  "report_output s =
     (case stdout_write (lp_stdout s) ClearLine of
        Inl e \<Rightarrow> (lp_stdout s, Some e)
      | Inr so1 \<Rightarrow>
          (case group_results (lp_latencies_by_group s) of
             Inl e \<Rightarrow> (so1, Some e)
           | Inr results \<Rightarrow>
               (case sorted_rows (lp_sort_by s) results of
                  Inl e \<Rightarrow> (so1, Some e)
                | Inr data \<Rightarrow>
                    (case stdout_write so1
                            (Table [lp_group_by s, ''avg'', ''p95'', ''p99''] data) of
                       Inl e \<Rightarrow> (so1, Some e)
                     | Inr so2 \<Rightarrow>
                         (case stdout_flush so2 of
                            Inl e \<Rightarrow> (so2, Some e)
                          | Inr so3 \<Rightarrow> (so3, None))))))"

text \<open>
  \<^verbatim>\<open>report\<close>: nothing when the report is already done; otherwise \<open>_seen\<close> is raised to
  \<open>_count\<close>, the flag is set, and the summary is written. The state is returned together
  with the exception that left the method, if any.
\<close>

definition report :: "LatencyPrinter \<Rightarrow> LatencyPrinter \<times> error option" where
  "report s =
     (if lp_report_done s then (s, None)
      else
        (let s1 = s\<lparr>lp_seen := (if lp_seen s < lp_count s then lp_count s else lp_seen s),
                    lp_report_done := True\<rparr>;
             (so, e) = report_output s1
         in (s1\<lparr>lp_stdout := so\<rparr>, e)))"

text \<open>
  One step of \<^verbatim>\<open>LatencyPrinter.run\<close>: an iteration of the waiting loop while
  \<open>_seen < _count\<close>, and after that the call of \<^verbatim>\<open>report\<close>, with which the thread ends.
\<close>

definition LatencyPrinter_run_iter :: "LatencyPrinter \<Rightarrow> LatencyPrinter" where
  "LatencyPrinter_run_iter s =
     (if lp_seen s < lp_count s then wait_for_requests_iter s
      else
        (case report s of
           (s', None) \<Rightarrow> s'\<lparr>lp_thread := Finished\<rparr>
         | (s', Some e) \<Rightarrow> s'\<lparr>lp_thread := Died e\<rparr>))"

definition LatencyPrinter_cancel :: "LatencyPrinter \<Rightarrow> error + LatencyPrinter" where
  "LatencyPrinter_cancel s = (case report s of (s', None) \<Rightarrow> Inr s' | (s', Some e) \<Rightarrow> Inl e)"

definition LatencyPrinter_request_handler :: "LatencyPrinter \<Rightarrow> msg \<Rightarrow> error + LatencyPrinter" where
  "LatencyPrinter_request_handler s req =
     (if opcode req \<noteq> CLOSE
      then Inr (s\<lparr>lp_requests_by_client := table_add (lp_requests_by_client s) req\<rparr>)
      else Inr s)"

definition LatencyPrinter_reply_handler :: "LatencyPrinter \<Rightarrow> msg \<Rightarrow> error + LatencyPrinter" where
  "LatencyPrinter_reply_handler s rep = Inr (s\<lparr>lp_replies := lp_replies s @ [rep]\<rparr>)"

definition LatencyPrinter_event_handler :: "LatencyPrinter \<Rightarrow> msg \<Rightarrow> error + LatencyPrinter" where
  "LatencyPrinter_event_handler s evt = Inr s"

fun LatencyPrinter_do :: "LatencyPrinter \<Rightarrow> action \<Rightarrow> error + LatencyPrinter" where
  "LatencyPrinter_do s (OnRequest m) = LatencyPrinter_request_handler s m"
| "LatencyPrinter_do s (OnReply m) = LatencyPrinter_reply_handler s m"
| "LatencyPrinter_do s (OnEvent m) = LatencyPrinter_event_handler s m"
| "LatencyPrinter_do s Tick =
     Inr (if lp_thread s = Running then LatencyPrinter_run_iter s else s)"
| "LatencyPrinter_do s Cancel = LatencyPrinter_cancel s"

fun LatencyPrinter_exec :: "LatencyPrinter \<Rightarrow> action list \<Rightarrow> error + LatencyPrinter" where
  "LatencyPrinter_exec s [] = Inr s"
| "LatencyPrinter_exec s (a # as) =
     (case LatencyPrinter_do s a of
        Inl e \<Rightarrow> Inl e
      | Inr s' \<Rightarrow> LatencyPrinter_exec s' as)"

text \<open>Everything written so far, flushed or not, and the number of tables in it.\<close>

definition written :: "stdout \<Rightarrow> chunk list" where
  "written so = concat (flushed so) @ buffer so"

fun is_table :: "chunk \<Rightarrow> bool" where
  "is_table (Table h d) = True"
| "is_table c = False"

definition tables :: "stdout \<Rightarrow> nat" where
  "tables so = length (filter is_table (written so))"

section \<open>report, statement by statement\<close>

text \<open>
  \<^verbatim>\<open>report\<close> is called by the printer thread at the end of \<^verbatim>\<open>run\<close> and by the main thread
  through \<^verbatim>\<open>cancel\<close>, and no lock is held while it runs (its own comment says one is
  missing). To follow two calls that overlap in time, the method is cut at its statements:
  the guard \<^verbatim>\<open>if self._report_done: return\<close>, the assignment that raises \<open>_seen\<close> to
  \<open>_count\<close>, the assignment that sets the flag, and the rest, which writes the summary.
\<close>

definition report_guard :: "LatencyPrinter \<Rightarrow> bool" where
  "report_guard s = lp_report_done s"

definition report_force_seen :: "LatencyPrinter \<Rightarrow> LatencyPrinter" where
  "report_force_seen s = (if lp_seen s < lp_count s then s\<lparr>lp_seen := lp_count s\<rparr> else s)"

definition report_set_done :: "LatencyPrinter \<Rightarrow> LatencyPrinter" where
  "report_set_done s = s\<lparr>lp_report_done := True\<rparr>"

definition report_write :: "LatencyPrinter \<Rightarrow> LatencyPrinter \<times> error option" where
  "report_write s = (case report_output s of (so, e) \<Rightarrow> (s\<lparr>lp_stdout := so\<rparr>, e))"

text \<open>
  Where a caller stands inside \<^verbatim>\<open>report\<close>, and one statement of the method: the new
  state, the next position (none when the method is left) and the exception raised.
\<close>

datatype report_pc = AtGuard | AtForce | AtSetDone | AtWrite

fun report_step ::
  "LatencyPrinter \<Rightarrow> report_pc \<Rightarrow> LatencyPrinter \<times> report_pc option \<times> error option" where
  "report_step s AtGuard = (s, if report_guard s then None else Some AtForce, None)"
| "report_step s AtForce = (report_force_seen s, Some AtSetDone, None)"
| "report_step s AtSetDone = (report_set_done s, Some AtWrite, None)"
| "report_step s AtWrite = (case report_write s of (s', e) \<Rightarrow> (s', None, e))"

text \<open>
  The two callers. The printer thread is in the loop of \<^verbatim>\<open>wait_for_requests\<close> (\<open>Before\<close>)
  until \<open>_seen\<close> has reached \<open>_count\<close>, then inside \<^verbatim>\<open>report\<close>, then returned. The main
  thread has not been interrupted (\<open>Before\<close>), then is inside \<^verbatim>\<open>report\<close> through
  \<^verbatim>\<open>cancel\<close>, then returned; an exception that leaves \<^verbatim>\<open>cancel\<close> is kept.
\<close>

datatype caller_pc = Before | In report_pc | Returned

record race =
  lat :: LatencyPrinter
  printer_pc :: caller_pc
  main_pc :: caller_pc
  main_raised :: "error option"

definition race_init :: "LatencyPrinter \<Rightarrow> race" where
  "race_init s = \<lparr>lat = s, printer_pc = Before, main_pc = Before, main_raised = None\<rparr>"

definition printer_turn :: "race \<Rightarrow> race" where
  "printer_turn r =
     (case printer_pc r of
        Before \<Rightarrow>
          (if lp_thread (lat r) \<noteq> Running then r
           else if lp_seen (lat r) < lp_count (lat r)
             then r\<lparr>lat := wait_for_requests_iter (lat r)\<rparr>
             else r\<lparr>printer_pc := In AtGuard\<rparr>)
      | In pc \<Rightarrow>
          (case report_step (lat r) pc of
             (l, Some pc', e) \<Rightarrow> r\<lparr>lat := l, printer_pc := In pc'\<rparr>
           | (l, None, None) \<Rightarrow> r\<lparr>lat := l\<lparr>lp_thread := Finished\<rparr>, printer_pc := Returned\<rparr>
           | (l, None, Some e) \<Rightarrow> r\<lparr>lat := l\<lparr>lp_thread := Died e\<rparr>, printer_pc := Returned\<rparr>)
      | Returned \<Rightarrow> r)"

definition main_turn :: "race \<Rightarrow> race" where
  "main_turn r =
     (case main_pc r of
        Before \<Rightarrow> r\<lparr>main_pc := In AtGuard\<rparr>
      | In pc \<Rightarrow>
          (case report_step (lat r) pc of
             (l, Some pc', e) \<Rightarrow> r\<lparr>lat := l, main_pc := In pc'\<rparr>
           | (l, None, e) \<Rightarrow> r\<lparr>lat := l, main_pc := Returned, main_raised := e\<rparr>)
      | Returned \<Rightarrow> r)"

text \<open>
  A run in which the calls may overlap: the sniffer delivers a message to a handler, or
  one of the two threads executes its next statement.
\<close>

datatype turn =
  SnifferRequest msg | SnifferReply msg | SnifferEvent msg | PrinterTurn | MainTurn

definition deliver :: "race \<Rightarrow> error + LatencyPrinter \<Rightarrow> race" where
  "deliver r res = (case res of Inr l \<Rightarrow> r\<lparr>lat := l\<rparr> | Inl e \<Rightarrow> r)"

fun race_turn :: "race \<Rightarrow> turn \<Rightarrow> race" where
  "race_turn r (SnifferRequest m) = deliver r (LatencyPrinter_request_handler (lat r) m)"
| "race_turn r (SnifferReply m) = deliver r (LatencyPrinter_reply_handler (lat r) m)"
| "race_turn r (SnifferEvent m) = deliver r (LatencyPrinter_event_handler (lat r) m)"
| "race_turn r PrinterTurn = printer_turn r"
| "race_turn r MainTurn = main_turn r"

definition race_exec :: "race \<Rightarrow> turn list \<Rightarrow> race" where
  "race_exec r ts = foldl race_turn r ts"

section \<open>main: choosing the printer\<close>

text \<open>
  The options \<^verbatim>\<open>main\<close> reads before it starts the printer. Resolving host names and
  configuring the sniffer have no part in the choice of the printer and are left out.
\<close>

record options =
  opt_version :: bool
  opt_iface :: string
  opt_excluded_hosts :: "string list"
  opt_included_hosts :: "string list"
  opt_count_requests :: int
  opt_measure_latency :: int
  opt_group_by :: string
  opt_sort_by :: string
  opt_aggregation_depth :: int
  opt_unpaired :: bool
  opt_colors :: bool

datatype printer =
  PCount CountPrinter
| PLatency LatencyPrinter
| PUnpaired UnpairedPrinter
| PDefault DefaultPrinter

definition validate_group_by :: "string \<Rightarrow> error + unit" where
  "validate_group_by group_by =
     (if group_by \<notin> set [''path'', ''type'', ''client''] then Inl (SystemExit 1) else Inr ())"

definition validate_aggregation_depth :: "int \<Rightarrow> error + unit" where
  "validate_aggregation_depth depth = (if depth < 0 then Inl (SystemExit 1) else Inr ())"

definition validate_sort_by :: "string \<Rightarrow> error + unit" where
  "validate_sort_by sort_by =
     (if sort_by \<notin> set [''avg'', ''p95'', ''p99''] then Inl (SystemExit 1) else Inr ())"

text \<open>\<^verbatim>\<open>main\<close> up to \<^verbatim>\<open>p.start()\<close>: the printer it builds, or the exit it takes.\<close>

definition main :: "options \<Rightarrow> error + printer" where
  "main opts =
     (if opt_version opts then Inl (SystemExit 0)
      else if opt_excluded_hosts opts \<noteq> [] \<and> opt_included_hosts opts \<noteq> [] then Inl (SystemExit 1)
      else
        (let loopback = (opt_iface opts \<in> set [''lo'', ''lo0''])
         in if opt_count_requests opts > 0 \<and> opt_measure_latency opts > 0 then Inl (SystemExit 1)
            else if opt_count_requests opts > 0 then
              (case validate_group_by (opt_group_by opts) of
                 Inl e \<Rightarrow> Inl e
               | Inr _ \<Rightarrow>
                   (case validate_aggregation_depth (opt_aggregation_depth opts) of
                      Inl e \<Rightarrow> Inl e
                    | Inr _ \<Rightarrow>
                        Inr (PCount (CountPrinter_init (opt_count_requests opts)
                               (opt_group_by opts) loopback (opt_aggregation_depth opts)))))
            else if opt_measure_latency opts > 0 then
              (case validate_group_by (opt_group_by opts) of
                 Inl e \<Rightarrow> Inl e
               | Inr _ \<Rightarrow>
                   (case validate_aggregation_depth (opt_aggregation_depth opts) of
                      Inl e \<Rightarrow> Inl e
                    | Inr _ \<Rightarrow>
                        (case validate_sort_by (opt_sort_by opts) of
                           Inl e \<Rightarrow> Inl e
                         | Inr _ \<Rightarrow>
                             Inr (PLatency (LatencyPrinter_init (opt_measure_latency opts)
                                    (opt_group_by opts) loopback (opt_aggregation_depth opts)
                                    (opt_sort_by opts))))))
            else if opt_unpaired opts then
              Inr (PUnpaired (UnpairedPrinter_init (opt_colors opts) loopback))
            else Inr (PDefault (DefaultPrinter_init (opt_colors opts) loopback))))"

fun printer_loopback :: "printer \<Rightarrow> bool" where
  "printer_loopback (PCount p) = cp_loopback p"
| "printer_loopback (PLatency p) = lp_loopback p"
| "printer_loopback (PUnpaired p) = up_loopback p"
| "printer_loopback (PDefault p) = dp_loopback p"

text \<open>The options of a plain run on the given interface: every other option at its default.\<close>

definition default_options :: "string \<Rightarrow> options" where
  "default_options i =
     \<lparr>opt_version = False, opt_iface = i, opt_excluded_hosts = [], opt_included_hosts = [],
      opt_count_requests = 0, opt_measure_latency = 0, opt_group_by = ''path'',
      opt_sort_by = ''avg'', opt_aggregation_depth = 0, opt_unpaired = False,
      opt_colors = False\<rparr>"

section \<open>Notions used in the statements\<close>

text \<open>
  The message a chunk shows, and the chunk lists that show no close request. In a flushed
  group of the paired engine the messages before the last one are the requests of a pair.
\<close>

fun chunk_msg :: "chunk \<Rightarrow> msg option" where
  "chunk_msg (Formatted c i m) = Some m"
| "chunk_msg c = None"

definition close_free :: "chunk list \<Rightarrow> bool" where
  "close_free cs =
     list_all (\<lambda>c. case chunk_msg c of Some m \<Rightarrow> opcode m \<noteq> CLOSE | None \<Rightarrow> True) cs"

text \<open>
  The states in which nothing is left unflushed, no close request is buffered and no
  flushed group shows a close request before its last message.
\<close>

definition dp_close_inv :: "DefaultPrinter \<Rightarrow> bool" where
  "dp_close_inv s \<longleftrightarrow>
     buffer (dp_stdout s) = []
     \<and> (\<forall>k. \<forall>r\<in>set (buffered (dp_requests_by_client s) k). opcode r \<noteq> CLOSE)
     \<and> (\<forall>b\<in>set (flushed (dp_stdout s)). close_free (butlast b))"



text \<open>
  The states of the latency engine in which the pipe is open, every group holds at least
  one sample, the sort column is one of the three of a result, a finished thread has
  reported, and the output holds one table if the report is done and none otherwise.
\<close>

definition lp_inv :: "LatencyPrinter \<Rightarrow> bool" where
  "lp_inv s \<longleftrightarrow>
     \<not> broken (lp_stdout s)
     \<and> list_all (\<lambda>item. snd item \<noteq> []) (lp_latencies_by_group s)
     \<and> metric (lp_sort_by s) \<noteq> None
     \<and> (lp_thread s = Finished \<longrightarrow> lp_report_done s)
     \<and> tables (lp_stdout s) = (if lp_report_done s then 1 else 0)"

text \<open>A latency engine that has collected the samples 1, ..., 10 in one group.\<close>

definition lp_ten :: LatencyPrinter where
  "lp_ten = (LatencyPrinter_init 10 ''path'' False 0 ''avg'')
     \<lparr>lp_latencies_by_group := [(''/a/b/c'', [1, 2, 3, 4, 5, 6, 7, 8, 9, 10])], lp_seen := 10\<rparr>"

section \<open>Example messages\<close>

definition mk :: "string \<Rightarrow> int \<Rightarrow> int \<Rightarrow> real \<Rightarrow> string \<Rightarrow> string \<Rightarrow> msg" where
  "mk c x oc ts p n =
     \<lparr>client = c, xid = x, opcode = oc, timestamp = ts, path = p, name = n\<rparr>"

definition req_a1 :: msg where
  "req_a1 = mk ''10.0.0.1:5000'' 1 4 100 ''/a/b/c'' ''GetDataRequest''"

definition req_a1_dup :: msg where
  "req_a1_dup = mk ''10.0.0.1:5000'' 1 4 (1001 / 10) ''/a/b/c'' ''GetDataRequest''"

definition req_a2 :: msg where
  "req_a2 = mk ''10.0.0.1:5000'' 2 3 101 ''/a/b/d'' ''ExistsRequest''"

definition req_b1 :: msg where
  "req_b1 = mk ''10.0.0.2:6000'' 1 8 102 ''/x'' ''GetChildrenRequest''"

definition req_close :: msg where
  "req_close = mk ''10.0.0.1:5000'' 3 CLOSE 103 [] ''CloseRequest''"

definition rep_a1 :: msg where
  "rep_a1 = mk ''10.0.0.1:5000'' 1 4 (201 / 2) ''/a/b/c'' ''GetDataReply''"

definition rep_a2 :: msg where
  "rep_a2 = mk ''10.0.0.1:5000'' 2 3 (203 / 2) ''/a/b/d'' ''ExistsReply''"

definition rep_b1 :: msg where
  "rep_b1 = mk ''10.0.0.2:6000'' 1 8 (205 / 2) ''/x'' ''GetChildrenReply''"

definition rep_a3 :: msg where
  "rep_a3 = mk ''10.0.0.1:5000'' 3 CLOSE 104 [] ''CloseReply''"

definition evt_a :: msg where
  "evt_a = mk ''10.0.0.1:5000'' (- 1) 0 105 ''/a/b/c'' ''WatchEvent''"

lemmas example_defs =
  mk_def req_a1_def req_a1_dup_def req_a2_def req_b1_def req_close_def
  rep_a1_def rep_a2_def rep_b1_def rep_a3_def evt_a_def CLOSE_def

section \<open>Properties of the pending-request table\<close>

text \<open>
  C7. For every table and xid, \<open>pop\<close> returns the whole list stored at the xid (the empty
  list when the xid is not a key) and removes exactly that key; a second \<open>pop\<close> of the
  same xid returns the empty list and changes nothing; and \<open>add\<close>, the only other
  operation of the class, removes no key and no stored request.
\<close>

theorem Requests_pop_whole_list:
  "fst (pop t x) = (case t x of None \<Rightarrow> [] | Some l \<Rightarrow> l)
   \<and> snd (pop t x) = t(x := None)
   \<and> snd (pop t x) x = None
   \<and> pop (snd (pop t x)) x = ([], snd (pop t x))
   \<and> dom t \<subseteq> dom (add t req)
   \<and> (\<forall>y l. t y = Some l \<longrightarrow> (\<exists>l'. add t req y = Some (l @ l')))"
  by (auto simp: pop_def add_def split: option.splits)

theorem Requests_pop_whole_list_witness:
  "add Requests_init req_a1 1 = Some [req_a1]
   \<and> fst (pop (add Requests_init req_a1) 1) = [req_a1]
   \<and> pop (snd (pop (add Requests_init req_a1) 1)) 1 = ([], snd (pop (add Requests_init req_a1) 1))
   \<and> (\<exists>l'. add (add Requests_init req_a1) req_a1_dup 1 = Some ([req_a1] @ l'))"
proof -
  let ?t = "add Requests_init req_a1"
  have h: "?t 1 = Some [req_a1]"
    by (simp add: add_def Requests_init_def req_a1_def mk_def)
  note inst = Requests_pop_whole_list [of ?t 1 req_a1_dup]
  from inst have a: "fst (pop ?t 1) = (case ?t 1 of None \<Rightarrow> [] | Some l \<Rightarrow> l)" by blast
  from inst have b: "pop (snd (pop ?t 1)) 1 = ([], snd (pop ?t 1))" by blast
  from inst have "\<forall>y l. ?t y = Some l \<longrightarrow> (\<exists>l'. add ?t req_a1_dup y = Some (l @ l'))"
    by blast
  with h have c: "\<exists>l'. add ?t req_a1_dup 1 = Some ([req_a1] @ l')" by blast
  from a h have a': "fst (pop ?t 1) = [req_a1]" by simp
  from h a' b c show ?thesis by blast
qed

section \<open>The paired engine\<close>

lemma write_all_ok:
  "\<not> broken so \<Longrightarrow> write_all so cs = Inr (so\<lparr>buffer := buffer so @ cs\<rparr>)"
  by (induction cs arbitrary: so) (simp_all add: stdout_write_def)

lemma write_all_broken:
  "broken so \<Longrightarrow> cs \<noteq> [] \<Longrightarrow> write_all so cs = Inl IOError"
  by (cases cs) (simp_all add: stdout_write_def)

lemma write_msgs_ok:
  "\<not> broken so \<Longrightarrow> msgs \<noteq> [] \<Longrightarrow>
   write_msgs c so msgs =
     Inr (so\<lparr>flushed := flushed so @ [buffer so @ group c msgs], buffer := []\<rparr>)"
  by (cases msgs)
     (simp_all add: write_msgs_def simple_write_def colored_write_def write_all_ok
        stdout_flush_def group_def del: write_all.simps enumerate_simps)

lemma write_msgs_broken:
  "broken so \<Longrightarrow> msgs \<noteq> [] \<Longrightarrow> write_msgs c so msgs = Inl IOError"
  by (cases msgs)
     (simp_all add: write_msgs_def simple_write_def colored_write_def stdout_write_def)

lemma buffered_empty [simp]: "buffered Map.empty k = []"
  by (simp add: buffered_def)

lemma fst_table_pop: "fst (table_pop t c x) = buffered t (c, x)"
  by (simp add: table_pop_def getitem_def pop_def buffered_def Requests_init_def
      split: option.splits prod.splits)

lemma buffered_table_pop:
  "buffered (snd (table_pop t c x)) k = (if k = (c, x) then [] else buffered t k)"
  by (cases k)
     (auto simp: table_pop_def getitem_def pop_def buffered_def Requests_init_def
      split: option.splits prod.splits)

lemma buffered_table_add:
  "buffered (table_add t req) k =
     (if k = key req then buffered t k @ [req] else buffered t k)"
  by (cases k)
     (auto simp: table_add_def getitem_def add_def buffered_def Requests_init_def key_def
      split: option.splits prod.splits)

lemma table_pop_split:
  "table_pop t c x = (buffered t (c, x), snd (table_pop t c x))"
  using fst_table_pop [of t c x] by (cases "table_pop t c x") simp

lemma buffered_table_pop_fun:
  "buffered (snd (table_pop t c x)) = (buffered t)((c, x) := [])"
  by (rule ext) (simp add: buffered_table_pop)

lemma run_iter_empty:
  "dp_replies s = [] \<Longrightarrow> DefaultPrinter_run_iter s = s"
  by (simp add: DefaultPrinter_run_iter_def)

lemma run_iter_unmatched:
  assumes "dp_replies s = rep # q" "buffered (dp_requests_by_client s) (key rep) = []"
  shows "DefaultPrinter_run_iter s =
           s\<lparr>dp_replies := q,
             dp_requests_by_client :=
               snd (table_pop (dp_requests_by_client s) (client rep) (xid rep))\<rparr>"
  using assms
  by (subst DefaultPrinter_run_iter_def, subst table_pop_split) (simp add: key_def)

lemma run_iter_matched:
  assumes "dp_replies s = rep # q" "buffered (dp_requests_by_client s) (key rep) = reqs"
    "reqs \<noteq> []" "\<not> broken (dp_stdout s)"
  shows "DefaultPrinter_run_iter s =
           s\<lparr>dp_replies := q,
             dp_requests_by_client :=
               snd (table_pop (dp_requests_by_client s) (client rep) (xid rep)),
             dp_stdout := (dp_stdout s)
               \<lparr>flushed := flushed (dp_stdout s) @
                  [buffer (dp_stdout s) @
                   group (dp_colors s)
                     ((if dp_loopback s then take 1 reqs else reqs) @ [rep])],
                buffer := []\<rparr>\<rparr>"
  using assms
  by (subst DefaultPrinter_run_iter_def, subst table_pop_split)
     (simp add: key_def write_msgs_ok)

lemma tick_pending:
  assumes "dp_ok s"
  shows "dp_ok (DefaultPrinter_run_iter s)
       \<and> dp_colors (DefaultPrinter_run_iter s) = dp_colors s
       \<and> dp_loopback (DefaultPrinter_run_iter s) = dp_loopback s
       \<and> length (dp_replies (DefaultPrinter_run_iter s)) = length (dp_replies s) - 1
       \<and> flushed (dp_stdout (DefaultPrinter_run_iter s)) @ dp_pending (DefaultPrinter_run_iter s) extra
           = flushed (dp_stdout s) @ dp_pending s extra"
proof (cases "dp_replies s")
  case Nil
  then show ?thesis using assms by (simp add: run_iter_empty)
next
  case (Cons rep q)
  show ?thesis
  proof (cases "buffered (dp_requests_by_client s) (key rep) = []")
    case True
    from run_iter_unmatched [OF Cons True] Cons True assms show ?thesis
      by (simp add: dp_ok_def dp_pending_def buffered_table_pop_fun key_def)
  next
    case False
    from assms have nb: "\<not> broken (dp_stdout s)" by (simp add: dp_ok_def)
    from run_iter_matched [OF Cons refl False nb] Cons False assms show ?thesis
      by (simp add: dp_ok_def dp_pending_def buffered_table_pop_fun key_def)
  qed
qed

lemma filter_eq_append_split:
  "filter P xs = ys @ zs \<Longrightarrow> \<exists>us vs. xs = us @ vs \<and> filter P us = ys \<and> filter P vs = zs"
proof (induction xs arbitrary: ys)
  case Nil
  then show ?case by simp
next
  case (Cons x xs)
  show ?case
  proof (cases "P x")
    case False
    with Cons.prems have "filter P xs = ys @ zs" by simp
    from Cons.IH [OF this] obtain us vs
      where "xs = us @ vs" "filter P us = ys" "filter P vs = zs" by blast
    with False have "x # xs = (x # us) @ vs \<and> filter P (x # us) = ys \<and> filter P vs = zs"
      by simp
    then show ?thesis by blast
  next
    case True
    show ?thesis
    proof (cases ys)
      case Nil
      with Cons.prems have "x # xs = [] @ (x # xs) \<and> filter P [] = ys \<and> filter P (x # xs) = zs"
        by simp
      then show ?thesis by blast
    next
      case (Cons y ys')
      with True Cons.prems have y: "y = x" and "filter P xs = ys' @ zs" by simp_all
      from Cons.IH [OF this(2)] obtain us vs
        where "xs = us @ vs" "filter P us = ys'" "filter P vs = zs" by blast
      with True y Cons
      have "x # xs = (x # us) @ vs \<and> filter P (x # us) = ys \<and> filter P vs = zs"
        by simp
      then show ?thesis by blast
    qed
  qed
qed

lemma dp_exec_append:
  "DefaultPrinter_exec s (xs @ ys) =
     (case DefaultPrinter_exec s xs of Inl e \<Rightarrow> Inl e | Inr s' \<Rightarrow> DefaultPrinter_exec s' ys)"
  by (induction xs arbitrary: s) (simp_all split: sum.splits)

lemma dp_drain:
  "dp_ok s \<Longrightarrow> length (dp_replies s) \<le> n \<Longrightarrow>
   \<exists>s'. DefaultPrinter_exec s (replicate n Tick) = Inr s' \<and> dp_ok s' \<and> dp_replies s' = []
     \<and> dp_colors s' = dp_colors s
     \<and> flushed (dp_stdout s') = flushed (dp_stdout s) @ dp_pending s []"
proof (induction n arbitrary: s)
  case 0
  then show ?case by (simp add: dp_pending_def)
next
  case (Suc n)
  let ?t = "DefaultPrinter_run_iter s"
  note tp = tick_pending [OF Suc.prems(1), of "[]"]
  from tp Suc.prems(2) have "dp_ok ?t" "length (dp_replies ?t) \<le> n" by simp_all
  from Suc.IH [OF this] obtain s' where
    "DefaultPrinter_exec ?t (replicate n Tick) = Inr s'" "dp_ok s'" "dp_replies s' = []"
    "dp_colors s' = dp_colors ?t"
    "flushed (dp_stdout s') = flushed (dp_stdout ?t) @ dp_pending ?t []" by blast
  with tp Suc.prems(1) show ?case by (simp add: dp_ok_def)
qed

lemma dp_reply_phase:
  "dp_ok s \<Longrightarrow> filter (\<lambda>a. a \<noteq> Tick) sched = map OnReply reps \<Longrightarrow>
   length (dp_replies s) + length reps \<le> n \<Longrightarrow>
   \<exists>s'. DefaultPrinter_exec s (sched @ replicate n Tick) = Inr s' \<and> dp_ok s'
     \<and> dp_replies s' = [] \<and> dp_colors s' = dp_colors s
     \<and> flushed (dp_stdout s') = flushed (dp_stdout s) @ dp_pending s reps"
proof (induction sched arbitrary: s reps)
  case Nil
  then show ?case using dp_drain [of s n] by simp
next
  case (Cons a sched)
  show ?case
  proof (cases "a = Tick")
    case True
    let ?t = "DefaultPrinter_run_iter s"
    note tp = tick_pending [OF Cons.prems(1), of reps]
    from True Cons.prems(2) have f: "filter (\<lambda>a. a \<noteq> Tick) sched = map OnReply reps"
      by simp
    from tp Cons.prems(3) have "dp_ok ?t" "length (dp_replies ?t) + length reps \<le> n"
      by simp_all
    from Cons.IH [OF this(1) f this(2)] obtain s' where
      "DefaultPrinter_exec ?t (sched @ replicate n Tick) = Inr s'" "dp_ok s'"
      "dp_replies s' = []" "dp_colors s' = dp_colors ?t"
      "flushed (dp_stdout s') = flushed (dp_stdout ?t) @ dp_pending ?t reps" by blast
    with tp True Cons.prems(1) show ?thesis by (simp add: dp_ok_def)
  next
    case False
    with Cons.prems(2) obtain r reps' where
      a: "a = OnReply r" and reps: "reps = r # reps'"
      and f: "filter (\<lambda>a. a \<noteq> Tick) sched = map OnReply reps'"
      by (cases reps) auto
    let ?t = "s\<lparr>dp_replies := dp_replies s @ [r]\<rparr>"
    from Cons.prems(1) have ok: "dp_ok ?t" by (simp add: dp_ok_def)
    from Cons.prems(3) reps have "length (dp_replies ?t) + length reps' \<le> n" by simp
    from Cons.IH [OF ok f this] obtain s' where
      "DefaultPrinter_exec ?t (sched @ replicate n Tick) = Inr s'" "dp_ok s'"
      "dp_replies s' = []" "dp_colors s' = dp_colors ?t"
      "flushed (dp_stdout s') = flushed (dp_stdout ?t) @ dp_pending ?t reps'" by blast
    with a reps show ?thesis
      by (simp add: DefaultPrinter_reply_handler_def dp_pending_def)
  qed
qed

lemma dp_request_phase:
  "dp_replies s = [] \<Longrightarrow> filter (\<lambda>a. a \<noteq> Tick) sched = map OnRequest reqs \<Longrightarrow>
   \<forall>r\<in>set reqs. opcode r \<noteq> CLOSE \<Longrightarrow>
   DefaultPrinter_exec s sched =
     Inr (s\<lparr>dp_requests_by_client := foldl table_add (dp_requests_by_client s) reqs\<rparr>)"
proof (induction sched arbitrary: s reqs)
  case Nil
  then show ?case by simp
next
  case (Cons a sched)
  show ?case
  proof (cases "a = Tick")
    case True
    with Cons.prems have "filter (\<lambda>a. a \<noteq> Tick) sched = map OnRequest reqs" by simp
    from Cons.IH [OF Cons.prems(1) this Cons.prems(3)] True Cons.prems(1)
    show ?thesis by (simp add: run_iter_empty)
  next
    case False
    with Cons.prems(2) obtain r reqs' where
      a: "a = OnRequest r" and reqs: "reqs = r # reqs'"
      and f: "filter (\<lambda>a. a \<noteq> Tick) sched = map OnRequest reqs'"
      by (cases reqs) auto
    let ?t = "s\<lparr>dp_requests_by_client := table_add (dp_requests_by_client s) r\<rparr>"
    from Cons.prems(1) have e: "dp_replies ?t = []" by simp
    from Cons.prems(3) reqs have nc: "\<forall>r\<in>set reqs'. opcode r \<noteq> CLOSE" and "opcode r \<noteq> CLOSE"
      by simp_all
    with Cons.IH [OF e f nc] a reqs show ?thesis
      by (simp add: DefaultPrinter_request_handler_def)
  qed
qed

lemma buffered_foldl_table_add:
  "buffered (foldl table_add t reqs) k = buffered t k @ filter (\<lambda>r. key r = k) reqs"
  by (induction reqs arbitrary: t) (auto simp: buffered_table_add)

lemma groups_matching:
  "distinct (map key reps) \<Longrightarrow>
   \<forall>rep\<in>set reps. b (key rep) = matching reqs rep \<and> matching reqs rep \<noteq> [] \<Longrightarrow>
   groups False b reps = map (\<lambda>rep. matching reqs rep @ [rep]) reps"
proof (induction reps arbitrary: b)
  case Nil
  then show ?case by simp
next
  case (Cons rep reps)
  from Cons.prems have d: "distinct (map key reps)" and nk: "key rep \<notin> key ` set reps"
    by simp_all
  from Cons.prems(2) nk
  have "\<forall>r\<in>set reps. (b(key rep := [])) (key r) = matching reqs r \<and> matching reqs r \<noteq> []"
    by (auto simp: image_iff)
  note ih = Cons.IH [OF d this]
  from Cons.prems(2) have h: "b (key rep) = matching reqs rep" "matching reqs rep \<noteq> []"
    by simp_all
  show ?case by (simp add: ih h)
qed

lemma filter_distinct_key:
  "distinct (map f xs) \<Longrightarrow> k \<in> f ` set xs \<Longrightarrow> length (filter (\<lambda>x. f x = k) xs) = 1"
proof (induction xs)
  case Nil
  then show ?case by simp
next
  case (Cons x xs)
  show ?case
  proof (cases "f x = k")
    case True
    with Cons.prems(1) have "\<forall>y\<in>set xs. f y \<noteq> k" by (auto simp: image_iff)
    then have "filter (\<lambda>x. f x = k) xs = []" by (simp add: filter_empty_conv)
    with True show ?thesis by simp
  next
    case False
    with Cons show ?thesis by auto
  qed
qed

lemma matching_single:
  assumes "distinct (map key reqs)" "key rep \<in> key ` set reqs"
  shows "\<exists>req. req \<in> set reqs \<and> matching reqs rep = [req]"
proof -
  from filter_distinct_key [OF assms] have "length (matching reqs rep) = 1"
    by (simp add: matching_def)
  then obtain req where m: "matching reqs rep = [req]"
    by (cases "matching reqs rep") auto
  then have "req \<in> set (matching reqs rep)" by simp
  then have "req \<in> set reqs" by (simp add: matching_def)
  with m show ?thesis by blast
qed

text \<open>
  C1. Take requests with pairwise different (client, xid) keys, none of them a close
  request, followed by replies that answer each of them once, on a printer built with
  loopback off. However the iterations of the printing loop fall between the handler
  calls, once the loop has run as often as there are replies the output consists of
  exactly one flushed group per reply, in the order the replies arrived; each group is the
  single request with the reply's key at position 0 followed by the reply at position 1;
  and there are as many groups as requests.
\<close>

theorem paired_one_group_per_pair:
  assumes nc: "\<forall>r\<in>set reqs. opcode r \<noteq> CLOSE"
    and dq: "distinct (map key reqs)"
    and dp: "distinct (map key reps)"
    and same: "set (map key reps) = set (map key reqs)"
    and sched: "filter (\<lambda>a. a \<noteq> Tick) sched = map OnRequest reqs @ map OnReply reps"
    and n: "length reps \<le> n"
  shows "\<exists>s'. DefaultPrinter_exec (DefaultPrinter_init colors False) (sched @ replicate n Tick)
            = Inr s'
       \<and> flushed (dp_stdout s') = map (\<lambda>rep. group colors (matching reqs rep @ [rep])) reps
       \<and> buffer (dp_stdout s') = []
       \<and> (\<forall>rep\<in>set reps. \<exists>req. req \<in> set reqs \<and> matching reqs rep = [req])
       \<and> length (flushed (dp_stdout s')) = length reqs"
proof -
  let ?init = "DefaultPrinter_init colors False"
  let ?t = "foldl table_add Map.empty reqs"
  let ?s1 = "?init\<lparr>dp_requests_by_client := ?t\<rparr>"
  from filter_eq_append_split [OF sched] obtain us vs where
    split: "sched = us @ vs" and us: "filter (\<lambda>a. a \<noteq> Tick) us = map OnRequest reqs"
    and vs: "filter (\<lambda>a. a \<noteq> Tick) vs = map OnReply reps" by blast
  have "dp_replies ?init = []" by (simp add: DefaultPrinter_init_def)
  from dp_request_phase [OF this us nc]
  have e1: "DefaultPrinter_exec ?init us = Inr ?s1" by (simp add: DefaultPrinter_init_def)
  have ok: "dp_ok ?s1" by (simp add: dp_ok_def DefaultPrinter_init_def stdout_init_def)
  have "length (dp_replies ?s1) + length reps \<le> n"
    using n by (simp add: DefaultPrinter_init_def)
  from dp_reply_phase [OF ok vs this] obtain s' where
    e2: "DefaultPrinter_exec ?s1 (vs @ replicate n Tick) = Inr s'"
    and out: "flushed (dp_stdout s') = flushed (dp_stdout ?s1) @ dp_pending ?s1 reps"
    and ok': "dp_ok s'" by blast
  have single: "\<forall>rep\<in>set reps. \<exists>req. req \<in> set reqs \<and> matching reqs rep = [req]"
  proof
    fix rep assume "rep \<in> set reps"
    then have "key rep \<in> set (map key reps)" by simp
    with same have "key rep \<in> key ` set reqs" by simp
    from matching_single [OF dq this]
    show "\<exists>req. req \<in> set reqs \<and> matching reqs rep = [req]" .
  qed
  have "\<forall>rep\<in>set reps. buffered ?t (key rep) = matching reqs rep \<and> matching reqs rep \<noteq> []"
    using single by (auto simp: buffered_foldl_table_add matching_def)
  from groups_matching [OF dp this]
  have g: "groups False (buffered ?t) reps = map (\<lambda>rep. matching reqs rep @ [rep]) reps" .
  have pend: "dp_pending ?s1 reps = map (\<lambda>rep. group colors (matching reqs rep @ [rep])) reps"
    by (simp add: dp_pending_def DefaultPrinter_init_def g comp_def)
  from out pend have out': "flushed (dp_stdout s')
      = map (\<lambda>rep. group colors (matching reqs rep @ [rep])) reps"
    by (simp add: DefaultPrinter_init_def stdout_init_def)
  from dp dq same have "length reps = length reqs"
    by (metis distinct_card length_map)
  with out' have len: "length (flushed (dp_stdout s')) = length reqs" by simp
  from e1 e2 split
  have "DefaultPrinter_exec ?init (sched @ replicate n Tick) = Inr s'"
    by (simp add: dp_exec_append)
  with out' len single ok' show ?thesis by (auto simp: dp_ok_def)
qed

theorem paired_one_group_per_pair_witness:
  "\<exists>s'. DefaultPrinter_exec (DefaultPrinter_init False False)
          ([OnRequest req_a1, Tick, OnRequest req_a2, OnRequest req_b1,
            OnReply rep_b1, Tick, OnReply rep_a1, OnReply rep_a2] @ replicate 3 Tick) = Inr s'
     \<and> flushed (dp_stdout s') =
         [[Formatted None 0 req_b1, Formatted None 1 rep_b1],
          [Formatted None 0 req_a1, Formatted None 1 rep_a1],
          [Formatted None 0 req_a2, Formatted None 1 rep_a2]]"
proof -
  let ?reqs = "[req_a1, req_a2, req_b1]"
  let ?reps = "[rep_b1, rep_a1, rep_a2]"
  let ?sched = "[OnRequest req_a1, Tick, OnRequest req_a2, OnRequest req_b1,
            OnReply rep_b1, Tick, OnReply rep_a1, OnReply rep_a2]"
  have h1: "\<forall>r\<in>set ?reqs. opcode r \<noteq> CLOSE" by (simp add: example_defs)
  have h2: "distinct (map key ?reqs)" by (simp add: example_defs key_def)
  have h3: "distinct (map key ?reps)" by (simp add: example_defs key_def)
  have h4: "set (map key ?reps) = set (map key ?reqs)" by (auto simp: example_defs key_def)
  have h5: "filter (\<lambda>a. a \<noteq> Tick) ?sched = map OnRequest ?reqs @ map OnReply ?reps"
    by simp
  have h6: "length ?reps \<le> 3" by simp
  have m: "map (\<lambda>rep. group False (matching ?reqs rep @ [rep])) ?reps =
         [[Formatted None 0 req_b1, Formatted None 1 rep_b1],
          [Formatted None 0 req_a1, Formatted None 1 rep_a1],
          [Formatted None 0 req_a2, Formatted None 1 rep_a2]]"
    by (simp add: matching_def key_def group_def example_defs)
  from paired_one_group_per_pair [OF h1 h2 h3 h4 h5 h6, of False] m
  show ?thesis by auto
qed

section \<open>Loopback duplicates and unmatched replies\<close>

lemma wait_iter_unmatched:
  assumes "lp_replies s = rep # q" "buffered (lp_requests_by_client s) (key rep) = []"
  shows "wait_for_requests_iter s =
           s\<lparr>lp_replies := q,
             lp_requests_by_client :=
               snd (table_pop (lp_requests_by_client s) (client rep) (xid rep))\<rparr>"
  using assms
  by (subst wait_for_requests_iter_def, subst table_pop_split) (simp add: key_def)

text \<open>
  C2. When the loop takes a reply whose key has a non-empty list of buffered requests and
  the pipe is open, it flushes one group: with loopback on, the first request of the list
  followed by the reply; with loopback off, every request of the list followed by the
  reply. In both cases the whole list has left the table, so later duplicates of that xid
  are never printed.
\<close>

theorem paired_loopback_dedupe:
  assumes "dp_replies s = rep # q"
    and "buffered (dp_requests_by_client s) (key rep) = reqs"
    and "reqs \<noteq> []"
    and "\<not> broken (dp_stdout s)"
  shows "flushed (dp_stdout (DefaultPrinter_run_iter s)) =
           flushed (dp_stdout s) @
             [buffer (dp_stdout s) @
              group (dp_colors s) (if dp_loopback s then [hd reqs, rep] else reqs @ [rep])]
       \<and> buffer (dp_stdout (DefaultPrinter_run_iter s)) = []
       \<and> buffered (dp_requests_by_client (DefaultPrinter_run_iter s)) (key rep) = []
       \<and> dp_replies (DefaultPrinter_run_iter s) = q
       \<and> dp_thread (DefaultPrinter_run_iter s) = dp_thread s"
proof -
  from assms(3) have "take 1 reqs = [hd reqs]" by (cases reqs) simp_all
  with run_iter_matched [OF assms] show ?thesis
    by (simp add: buffered_table_pop key_def)
qed

theorem paired_loopback_dedupe_witness:
  "flushed (dp_stdout (DefaultPrinter_run_iter
      ((DefaultPrinter_init False True)
         \<lparr>dp_requests_by_client := table_add (table_add Map.empty req_a1) req_a1_dup,
          dp_replies := [rep_a1]\<rparr>)))
     = [[Formatted None 0 req_a1, Formatted None 1 rep_a1]]
   \<and> flushed (dp_stdout (DefaultPrinter_run_iter
      ((DefaultPrinter_init False False)
         \<lparr>dp_requests_by_client := table_add (table_add Map.empty req_a1) req_a1_dup,
          dp_replies := [rep_a1]\<rparr>)))
     = [[Formatted None 0 req_a1, Formatted None 1 req_a1_dup, Formatted None 2 rep_a1]]"
proof -
  let ?t = "table_add (table_add Map.empty req_a1) req_a1_dup"
  let ?s = "\<lambda>lb. (DefaultPrinter_init False lb)\<lparr>dp_requests_by_client := ?t, dp_replies := [rep_a1]\<rparr>"
  have b: "buffered ?t (key rep_a1) = [req_a1, req_a1_dup]"
    by (simp add: buffered_table_add key_def example_defs)
  have ne: "[req_a1, req_a1_dup] \<noteq> []" by simp
  have h1: "\<And>lb. dp_replies (?s lb) = rep_a1 # []" by simp
  have h2: "\<And>lb. buffered (dp_requests_by_client (?s lb)) (key rep_a1) = [req_a1, req_a1_dup]"
    using b by simp
  have h4: "\<And>lb. \<not> broken (dp_stdout (?s lb))"
    by (simp add: DefaultPrinter_init_def stdout_init_def)
  from paired_loopback_dedupe [OF h1 h2 ne h4, of True]
       paired_loopback_dedupe [OF h1 h2 ne h4, of False]
  show ?thesis
    by (simp add: DefaultPrinter_init_def stdout_init_def group_def)
qed

text \<open>
  C6. When the next reply of the queue has no buffered request under its key, an
  iteration of either loop only takes the reply off the queue: the paired engine writes
  nothing, the latency engine writes nothing and leaves the number of matched pairs and
  the latency samples as they were, and in both the thread is still running afterwards.
\<close>

theorem unmatched_reply_dropped:
  "(dp_thread s = Running \<and> dp_replies s = rep # q
      \<and> buffered (dp_requests_by_client s) (key rep) = []
    \<longrightarrow> (\<exists>s'. DefaultPrinter_do s Tick = Inr s' \<and> dp_stdout s' = dp_stdout s
           \<and> dp_thread s' = Running \<and> dp_replies s' = q
           \<and> buffered (dp_requests_by_client s') = buffered (dp_requests_by_client s)))
   \<and> (lp_thread l = Running \<and> lp_seen l < lp_count l \<and> lp_replies l = rep # q
      \<and> buffered (lp_requests_by_client l) (key rep) = []
    \<longrightarrow> (\<exists>l'. LatencyPrinter_do l Tick = Inr l' \<and> lp_stdout l' = lp_stdout l
           \<and> lp_seen l' = lp_seen l
           \<and> lp_latencies_by_group l' = lp_latencies_by_group l
           \<and> lp_report_done l' = lp_report_done l
           \<and> lp_thread l' = Running \<and> lp_replies l' = q
           \<and> buffered (lp_requests_by_client l') = buffered (lp_requests_by_client l)))"
proof (intro conjI impI)
  assume a: "dp_thread s = Running \<and> dp_replies s = rep # q
      \<and> buffered (dp_requests_by_client s) (key rep) = []"
  then have r: "dp_replies s = rep # q" and b: "buffered (dp_requests_by_client s) (key rep) = []"
    by simp_all
  have "(buffered (dp_requests_by_client s))(key rep := []) = buffered (dp_requests_by_client s)"
    using b by (auto simp: fun_eq_iff)
  with run_iter_unmatched [OF r b] a
  show "\<exists>s'. DefaultPrinter_do s Tick = Inr s' \<and> dp_stdout s' = dp_stdout s
           \<and> dp_thread s' = Running \<and> dp_replies s' = q
           \<and> buffered (dp_requests_by_client s') = buffered (dp_requests_by_client s)"
    by (simp add: buffered_table_pop_fun key_def)
next
  assume a: "lp_thread l = Running \<and> lp_seen l < lp_count l \<and> lp_replies l = rep # q
      \<and> buffered (lp_requests_by_client l) (key rep) = []"
  then have r: "lp_replies l = rep # q" and b: "buffered (lp_requests_by_client l) (key rep) = []"
    by simp_all
  have "(buffered (lp_requests_by_client l))(key rep := []) = buffered (lp_requests_by_client l)"
    using b by (auto simp: fun_eq_iff)
  with wait_iter_unmatched [OF r b] a
  show "\<exists>l'. LatencyPrinter_do l Tick = Inr l' \<and> lp_stdout l' = lp_stdout l
           \<and> lp_seen l' = lp_seen l
           \<and> lp_latencies_by_group l' = lp_latencies_by_group l
           \<and> lp_report_done l' = lp_report_done l
           \<and> lp_thread l' = Running \<and> lp_replies l' = q
           \<and> buffered (lp_requests_by_client l') = buffered (lp_requests_by_client l)"
    by (simp add: buffered_table_pop_fun key_def LatencyPrinter_run_iter_def)
qed

theorem unmatched_reply_dropped_witness:
  "(\<exists>s'. DefaultPrinter_do ((DefaultPrinter_init False False)\<lparr>dp_replies := [rep_a2]\<rparr>) Tick = Inr s'
       \<and> dp_stdout s' = stdout_init \<and> dp_thread s' = Running \<and> dp_replies s' = [])
   \<and> (\<exists>l'. LatencyPrinter_do
          ((LatencyPrinter_init 5 ''path'' False 0 ''avg'')\<lparr>lp_replies := [rep_a2]\<rparr>) Tick = Inr l'
       \<and> lp_stdout l' = stdout_init \<and> lp_seen l' = 0 \<and> lp_latencies_by_group l' = []
       \<and> lp_thread l' = Running \<and> lp_replies l' = [])"
proof -
  let ?s = "(DefaultPrinter_init False False)\<lparr>dp_replies := [rep_a2]\<rparr>"
  let ?l = "(LatencyPrinter_init 5 ''path'' False 0 ''avg'')\<lparr>lp_replies := [rep_a2]\<rparr>"
  have hs: "dp_thread ?s = Running \<and> dp_replies ?s = rep_a2 # []
      \<and> buffered (dp_requests_by_client ?s) (key rep_a2) = []"
    by (simp add: DefaultPrinter_init_def)
  have hl: "lp_thread ?l = Running \<and> lp_seen ?l < lp_count ?l \<and> lp_replies ?l = rep_a2 # []
      \<and> buffered (lp_requests_by_client ?l) (key rep_a2) = []"
    by (simp add: LatencyPrinter_init_def)
  note inst = unmatched_reply_dropped [of ?s rep_a2 "[]" ?l]
  from inst hs obtain s' where
    "DefaultPrinter_do ?s Tick = Inr s' \<and> dp_stdout s' = dp_stdout ?s
           \<and> dp_thread s' = Running \<and> dp_replies s' = []" by blast
  moreover from inst hl obtain l' where
    "LatencyPrinter_do ?l Tick = Inr l' \<and> lp_stdout l' = lp_stdout ?l
           \<and> lp_seen l' = lp_seen ?l
           \<and> lp_latencies_by_group l' = lp_latencies_by_group ?l
           \<and> lp_thread l' = Running \<and> lp_replies l' = []" by blast
  ultimately show ?thesis
    by (simp add: DefaultPrinter_init_def LatencyPrinter_init_def)
qed

section \<open>Close requests\<close>

lemma write_msgs_single:
  "write_msgs c so [m] =
     (if broken so then Inl IOError
      else Inr (so\<lparr>flushed := flushed so @ [buffer so @ group c [m]], buffer := []\<rparr>))"
  using write_msgs_ok [of so "[m]" c] write_msgs_broken [of so "[m]" c] by simp

lemma close_free_Nil [simp]: "close_free []"
  by (simp add: close_free_def)

lemma close_free_formatted:
  "close_free (map (\<lambda>(i, m). Formatted cc i m) (enumerate n xs))
     \<longleftrightarrow> (\<forall>m\<in>set xs. opcode m \<noteq> CLOSE)"
  by (induction xs arbitrary: n) (simp_all add: close_free_def)

lemma butlast_group:
  "butlast (group c (xs @ [rep])) =
     map (\<lambda>(i, m). Formatted (if c then Some (client (hd (xs @ [rep]))) else None) i m)
       (enumerate 0 xs)"
  by (simp add: group_def enumerate_append_eq)

lemma close_free_group:
  "\<forall>m\<in>set xs. opcode m \<noteq> CLOSE \<Longrightarrow> close_free (butlast (group c (xs @ [rep])))"
  by (simp add: butlast_group close_free_formatted)

lemma group_single: "butlast (group c [m]) = []"
  by (simp add: group_def)

lemma run_iter_matched_broken:
  assumes "dp_replies s = rep # q" "buffered (dp_requests_by_client s) (key rep) \<noteq> []"
    "broken (dp_stdout s)"
  shows "DefaultPrinter_run_iter s =
           s\<lparr>dp_replies := q,
             dp_requests_by_client :=
               snd (table_pop (dp_requests_by_client s) (client rep) (xid rep)),
             dp_thread := Finished\<rparr>"
  using assms
  by (subst DefaultPrinter_run_iter_def, subst table_pop_split)
     (simp add: key_def write_msgs_broken)

lemma run_iter_close_inv:
  assumes "dp_close_inv s"
  shows "dp_close_inv (DefaultPrinter_run_iter s)"
proof (cases "dp_replies s")
  case Nil
  with assms show ?thesis by (simp add: run_iter_empty)
next
  case (Cons rep q)
  let ?reqs = "buffered (dp_requests_by_client s) (key rep)"
  show ?thesis
  proof (cases "?reqs = []")
    case True
    from run_iter_unmatched [OF Cons True] assms show ?thesis
      by (simp add: dp_close_inv_def buffered_table_pop del: split_paired_All)
  next
    case False
    show ?thesis
    proof (cases "broken (dp_stdout s)")
      case True
      from run_iter_matched_broken [OF Cons False True] assms show ?thesis
        by (simp add: dp_close_inv_def buffered_table_pop del: split_paired_All)
    next
      case nb: False
      from assms have nc: "\<forall>m\<in>set ?reqs. opcode m \<noteq> CLOSE"
        unfolding dp_close_inv_def by blast
      have "set (take 1 ?reqs) \<subseteq> set ?reqs" by (rule set_take_subset)
      with nc have nc1: "\<forall>m\<in>set (take 1 ?reqs). opcode m \<noteq> CLOSE" by blast
      have "close_free (butlast (group (dp_colors s)
              ((if dp_loopback s then take 1 ?reqs else ?reqs) @ [rep])))"
        using close_free_group [OF nc] close_free_group [OF nc1] by simp
      with run_iter_matched [OF Cons refl False nb] assms show ?thesis
        by (simp add: dp_close_inv_def buffered_table_pop del: split_paired_All)
    qed
  qed
qed

lemma dp_do_close_inv:
  assumes "dp_close_inv s" "DefaultPrinter_do s a = Inr s'"
  shows "dp_close_inv s'"
proof (cases a)
  case (OnRequest m)
  with assms show ?thesis
    by (auto simp: DefaultPrinter_request_handler_def write_msgs_single dp_close_inv_def
        buffered_table_add group_single simp del: split_paired_All split: if_splits)
next
  case (OnReply m)
  with assms show ?thesis
    by (auto simp: DefaultPrinter_reply_handler_def dp_close_inv_def simp del: split_paired_All)
next
  case (OnEvent m)
  with assms show ?thesis
    by (auto simp: DefaultPrinter_event_handler_def write_msgs_single dp_close_inv_def
        group_single simp del: split_paired_All split: if_splits)
next
  case Tick
  with assms run_iter_close_inv [OF assms(1)] show ?thesis by (auto split: if_splits)
next
  case Cancel
  with assms show ?thesis by (simp add: DefaultPrinter_cancel_def)
qed

lemma dp_exec_close_inv:
  "dp_close_inv s \<Longrightarrow> DefaultPrinter_exec s sched = Inr s' \<Longrightarrow> dp_close_inv s'"
proof (induction sched arbitrary: s)
  case Nil
  then show ?case by simp
next
  case (Cons a sched)
  from Cons.prems(2) obtain s1 where
    d: "DefaultPrinter_do s a = Inr s1" and e: "DefaultPrinter_exec s1 sched = Inr s'"
    by (auto split: sum.splits)
  from Cons.IH [OF dp_do_close_inv [OF Cons.prems(1) d] e] show ?case .
qed

lemma dp_init_close_inv: "dp_close_inv (DefaultPrinter_init c lb)"
  by (simp add: dp_close_inv_def DefaultPrinter_init_def stdout_init_def)

lemma wait_iter_table:
  "buffered (lp_requests_by_client (wait_for_requests_iter s)) k =
     (case lp_replies s of
        [] \<Rightarrow> buffered (lp_requests_by_client s) k
      | rep # q \<Rightarrow> (if k = key rep then [] else buffered (lp_requests_by_client s) k))"
  by (subst wait_for_requests_iter_def, subst table_pop_split)
     (auto simp: Let_def buffered_table_pop key_def
        split: list.splits sum.splits)

lemma report_table: "lp_requests_by_client (fst (report s)) = lp_requests_by_client s"
  by (simp add: report_def Let_def split: prod.splits)

lemma lp_do_no_close:
  assumes "\<forall>k. \<forall>r\<in>set (buffered (lp_requests_by_client s) k). opcode r \<noteq> CLOSE"
    and "LatencyPrinter_do s a = Inr s'"
  shows "\<forall>k. \<forall>r\<in>set (buffered (lp_requests_by_client s') k). opcode r \<noteq> CLOSE"
proof (cases a)
  case (OnRequest m)
  with assms show ?thesis
    by (auto simp: LatencyPrinter_request_handler_def buffered_table_add
        simp del: split_paired_All split: if_splits)
next
  case (OnReply m)
  with assms show ?thesis
    by (auto simp: LatencyPrinter_reply_handler_def simp del: split_paired_All)
next
  case (OnEvent m)
  with assms show ?thesis
    by (auto simp: LatencyPrinter_event_handler_def simp del: split_paired_All)
next
  case Tick
  show ?thesis
  proof (cases "lp_thread s = Running")
    case False
    with Tick assms show ?thesis by (simp del: split_paired_All)
  next
    case True
    show ?thesis
    proof (cases "lp_seen s < lp_count s")
      case lt: True
      with True Tick assms(2) have "s' = wait_for_requests_iter s"
        by (simp add: LatencyPrinter_run_iter_def)
      with assms(1) show ?thesis
        by (auto simp: wait_iter_table simp del: split_paired_All split: list.splits if_splits)
    next
      case ge: False
      with True Tick assms(2) have "lp_requests_by_client s' = lp_requests_by_client s"
        using report_table [of s]
        by (auto simp: LatencyPrinter_run_iter_def split: prod.splits option.splits)
      with assms(1) show ?thesis by (simp del: split_paired_All)
    qed
  qed
next
  case Cancel
  with assms(2) have "lp_requests_by_client s' = lp_requests_by_client s"
    using report_table [of s]
    by (auto simp: LatencyPrinter_cancel_def split: prod.splits option.splits)
  with assms(1) show ?thesis by (simp del: split_paired_All)
qed

lemma lp_exec_no_close:
  "\<forall>k. \<forall>r\<in>set (buffered (lp_requests_by_client s) k). opcode r \<noteq> CLOSE \<Longrightarrow>
   LatencyPrinter_exec s sched = Inr s' \<Longrightarrow>
   \<forall>k. \<forall>r\<in>set (buffered (lp_requests_by_client s') k). opcode r \<noteq> CLOSE"
proof (induction sched arbitrary: s)
  case Nil
  then show ?case by (simp del: split_paired_All)
next
  case (Cons a sched)
  from Cons.prems(2) obtain s1 where
    d: "LatencyPrinter_do s a = Inr s1" and e: "LatencyPrinter_exec s1 sched = Inr s'"
    by (auto split: sum.splits)
  from Cons.IH [OF lp_do_no_close [OF Cons.prems(1) d] e] show ?case .
qed

text \<open>
  C5. A close request never enters the pending-request table. The paired engine's
  request handler writes it at once as a group of its own and leaves the table as it was
  (on a broken pipe the write raises instead); the latency engine's request handler
  leaves its whole state as it was. Hence after any run of either engine from its initial
  state no buffered request is a close request, and in the paired engine's output no
  flushed group shows a close request before its last message, that is, as the request of
  a pair.
\<close>

theorem close_request_never_buffered:
  "(opcode req = CLOSE \<longrightarrow>
      (\<forall>s'. DefaultPrinter_request_handler s req = Inr s' \<longrightarrow>
         dp_requests_by_client s' = dp_requests_by_client s
         \<and> dp_stdout s' = (dp_stdout s)
              \<lparr>flushed := flushed (dp_stdout s) @
                 [buffer (dp_stdout s) @ group (dp_colors s) [req]], buffer := []\<rparr>)
      \<and> (\<not> broken (dp_stdout s) \<longrightarrow> (\<exists>s'. DefaultPrinter_request_handler s req = Inr s'))
      \<and> LatencyPrinter_request_handler l req = Inr l)
   \<and> (DefaultPrinter_exec (DefaultPrinter_init c lb) sched = Inr s1 \<longrightarrow>
        (\<forall>k. \<forall>r\<in>set (buffered (dp_requests_by_client s1) k). opcode r \<noteq> CLOSE)
        \<and> (\<forall>b\<in>set (flushed (dp_stdout s1)). close_free (butlast b)))
   \<and> (LatencyPrinter_exec (LatencyPrinter_init n g lb' d sb) sched' = Inr l1 \<longrightarrow>
        (\<forall>k. \<forall>r\<in>set (buffered (lp_requests_by_client l1) k). opcode r \<noteq> CLOSE))"
proof (intro conjI impI)
  assume "opcode req = CLOSE"
  then show "\<forall>s'. DefaultPrinter_request_handler s req = Inr s' \<longrightarrow>
         dp_requests_by_client s' = dp_requests_by_client s
         \<and> dp_stdout s' = (dp_stdout s)
              \<lparr>flushed := flushed (dp_stdout s) @
                 [buffer (dp_stdout s) @ group (dp_colors s) [req]], buffer := []\<rparr>"
    by (auto simp: DefaultPrinter_request_handler_def write_msgs_single split: if_splits)
next
  assume "opcode req = CLOSE" "\<not> broken (dp_stdout s)"
  then show "\<exists>s'. DefaultPrinter_request_handler s req = Inr s'"
    by (simp add: DefaultPrinter_request_handler_def write_msgs_single)
next
  assume "opcode req = CLOSE"
  then show "LatencyPrinter_request_handler l req = Inr l"
    by (simp add: LatencyPrinter_request_handler_def)
next
  assume "DefaultPrinter_exec (DefaultPrinter_init c lb) sched = Inr s1"
  from dp_exec_close_inv [OF dp_init_close_inv this]
  show "\<forall>k. \<forall>r\<in>set (buffered (dp_requests_by_client s1) k). opcode r \<noteq> CLOSE"
    and "\<forall>b\<in>set (flushed (dp_stdout s1)). close_free (butlast b)"
    unfolding dp_close_inv_def by blast+
next
  assume e: "LatencyPrinter_exec (LatencyPrinter_init n g lb' d sb) sched' = Inr l1"
  have "\<forall>k. \<forall>r\<in>set (buffered (lp_requests_by_client (LatencyPrinter_init n g lb' d sb)) k).
          opcode r \<noteq> CLOSE"
    by (simp add: LatencyPrinter_init_def del: split_paired_All)
  from lp_exec_no_close [OF this e]
  show "\<forall>k. \<forall>r\<in>set (buffered (lp_requests_by_client l1) k). opcode r \<noteq> CLOSE" .
qed

lemma dp_example_run:
  "\<exists>s1. DefaultPrinter_exec (DefaultPrinter_init False False)
          [OnRequest req_a1, OnRequest req_close, OnReply rep_a3, OnReply rep_a1, Tick, Tick]
        = Inr s1
     \<and> flushed (dp_stdout s1) =
         [[Formatted None 0 req_close], [Formatted None 0 req_a1, Formatted None 1 rep_a1]]"
  by (simp add: DefaultPrinter_init_def stdout_init_def DefaultPrinter_request_handler_def
      DefaultPrinter_reply_handler_def DefaultPrinter_run_iter_def write_msgs_single
      write_msgs_ok group_def table_pop_def table_add_def getitem_def pop_def add_def
      Requests_init_def example_defs)

lemma lp_example_run:
  "\<exists>l1. LatencyPrinter_exec (LatencyPrinter_init 2 ''path'' False 0 ''avg'')
          [OnRequest req_close, OnRequest req_a1] = Inr l1
     \<and> buffered (lp_requests_by_client l1) (key req_a1) = [req_a1]"
  by (simp add: LatencyPrinter_init_def LatencyPrinter_request_handler_def
      buffered_table_add key_def example_defs)

theorem close_request_never_buffered_witness:
  "opcode req_close = CLOSE
   \<and> (\<exists>s'. DefaultPrinter_request_handler (DefaultPrinter_init False False) req_close = Inr s'
         \<and> dp_requests_by_client s' = Map.empty
         \<and> flushed (dp_stdout s') = [[Formatted None 0 req_close]])
   \<and> LatencyPrinter_request_handler (LatencyPrinter_init 2 ''path'' False 0 ''avg'') req_close
       = Inr (LatencyPrinter_init 2 ''path'' False 0 ''avg'')
   \<and> (\<exists>s1. DefaultPrinter_exec (DefaultPrinter_init False False)
            [OnRequest req_a1, OnRequest req_close, OnReply rep_a3, OnReply rep_a1, Tick, Tick]
          = Inr s1
        \<and> flushed (dp_stdout s1) =
            [[Formatted None 0 req_close], [Formatted None 0 req_a1, Formatted None 1 rep_a1]]
        \<and> (\<forall>b\<in>set (flushed (dp_stdout s1)). close_free (butlast b)))
   \<and> (\<exists>l1. LatencyPrinter_exec (LatencyPrinter_init 2 ''path'' False 0 ''avg'')
            [OnRequest req_close, OnRequest req_a1] = Inr l1
        \<and> buffered (lp_requests_by_client l1) (key req_a1) = [req_a1]
        \<and> (\<forall>k. \<forall>r\<in>set (buffered (lp_requests_by_client l1) k). opcode r \<noteq> CLOSE))"
proof -
  let ?s = "DefaultPrinter_init False False"
  let ?l = "LatencyPrinter_init 2 ''path'' False 0 ''avg''"
  let ?sched = "[OnRequest req_a1, OnRequest req_close, OnReply rep_a3, OnReply rep_a1, Tick, Tick]"
  let ?sched' = "[OnRequest req_close, OnRequest req_a1]"
  have c: "opcode req_close = CLOSE" by (simp add: example_defs)
  have nb: "\<not> broken (dp_stdout ?s)" by (simp add: DefaultPrinter_init_def stdout_init_def)
  from dp_example_run obtain s1 where
    e1: "DefaultPrinter_exec ?s ?sched = Inr s1"
    and f1: "flushed (dp_stdout s1) =
         [[Formatted None 0 req_close], [Formatted None 0 req_a1, Formatted None 1 rep_a1]]"
    by blast
  from lp_example_run obtain l1 where
    e2: "LatencyPrinter_exec ?l ?sched' = Inr l1"
    and b2: "buffered (lp_requests_by_client l1) (key req_a1) = [req_a1]" by blast
  note inst = close_request_never_buffered
    [of req_close ?s ?l False False ?sched s1 2 "''path''" False 0 "''avg''" ?sched' l1]
  from inst c nb obtain s' where h: "DefaultPrinter_request_handler ?s req_close = Inr s'"
    by blast
  with inst c have "dp_requests_by_client s' = dp_requests_by_client ?s
         \<and> dp_stdout s' = (dp_stdout ?s)
              \<lparr>flushed := flushed (dp_stdout ?s) @
                 [buffer (dp_stdout ?s) @ group (dp_colors ?s) [req_close]], buffer := []\<rparr>"
    by blast
  then have p1: "dp_requests_by_client s' = Map.empty
         \<and> flushed (dp_stdout s') = [[Formatted None 0 req_close]]"
    by (simp add: DefaultPrinter_init_def stdout_init_def group_def)
  from inst c have p2: "LatencyPrinter_request_handler ?l req_close = Inr ?l" by blast
  from inst e1 have p3: "\<forall>b\<in>set (flushed (dp_stdout s1)). close_free (butlast b)" by blast
  from inst e2
  have p4: "\<forall>k. \<forall>r\<in>set (buffered (lp_requests_by_client l1) k). opcode r \<noteq> CLOSE"
    by blast
  from c h p1 p2 e1 f1 p3 e2 b2 p4 show ?thesis by blast
qed

section \<open>The count engine\<close>




















section \<open>Calls of report one after the other\<close>

lemma group_result_ok: "l \<noteq> [] \<Longrightarrow> \<exists>r. group_result l = Inr r"
proof -
  assume "l \<noteq> []"
  then have "sort l \<noteq> []" by (metis length_sort length_0_conv)
  with \<open>l \<noteq> []\<close> show ?thesis by (simp add: group_result_def percentile_def Let_def)
qed

lemma group_results_ok:
  "list_all (\<lambda>item. snd item \<noteq> []) d \<Longrightarrow> \<exists>rs. group_results d = Inr rs"
proof (induction d)
  case Nil
  then show ?case by simp
next
  case (Cons a d)
  obtain k l where a: "a = (k, l)" by (cases a)
  with Cons.prems have "l \<noteq> []" by simp
  from group_result_ok [OF this] obtain r where "group_result l = Inr r" by blast
  moreover from Cons obtain rs where "group_results d = Inr rs" by auto
  ultimately show ?case using a by simp
qed

lemma sorted_rows_ok: "metric sb \<noteq> None \<Longrightarrow> \<exists>data. sorted_rows sb rs = Inr data"
  by (auto simp: sorted_rows_def)

lemma tables_flush_table:
  "\<not> is_table c \<Longrightarrow>
   tables (so\<lparr>flushed := flushed so @ [buffer so @ [c, Table h data]], buffer := []\<rparr>)
     = Suc (tables so)"
  by (simp add: tables_def written_def)

lemma tables_flush_other:
  "\<not> is_table c \<Longrightarrow>
   tables (so\<lparr>flushed := flushed so @ [buffer so @ [c]], buffer := []\<rparr>) = tables so"
  by (simp add: tables_def written_def)

lemma report_output_ok:
  assumes "\<not> broken (lp_stdout s)" "list_all (\<lambda>item. snd item \<noteq> []) (lp_latencies_by_group s)"
    "metric (lp_sort_by s) \<noteq> None"
  shows "\<exists>data. report_output s =
           ((lp_stdout s)\<lparr>flushed := flushed (lp_stdout s) @
               [buffer (lp_stdout s) @
                [ClearLine, Table [lp_group_by s, ''avg'', ''p95'', ''p99''] data]],
             buffer := []\<rparr>, None)"
proof -
  from group_results_ok [OF assms(2)] obtain rs where
    rs: "group_results (lp_latencies_by_group s) = Inr rs" by blast
  from sorted_rows_ok [OF assms(3)] obtain data where
    data: "sorted_rows (lp_sort_by s) rs = Inr data" by blast
  from assms(1) rs data have "report_output s =
           ((lp_stdout s)\<lparr>flushed := flushed (lp_stdout s) @
               [buffer (lp_stdout s) @
                [ClearLine, Table [lp_group_by s, ''avg'', ''p95'', ''p99''] data]],
             buffer := []\<rparr>, None)"
    by (simp add: report_output_def stdout_write_def stdout_flush_def)
  then show ?thesis by blast
qed

lemma report_done: "lp_report_done s \<Longrightarrow> report s = (s, None)"
  by (simp add: report_def)

lemma report_sets_done: "lp_report_done (fst (report s))"
  by (simp add: report_def Let_def split: prod.splits)

lemma report_fresh:
  assumes "lp_inv s" "\<not> lp_report_done s"
  shows "\<exists>s'. report s = (s', None) \<and> lp_report_done s' \<and> \<not> broken (lp_stdout s')
          \<and> tables (lp_stdout s') = 1
          \<and> lp_latencies_by_group s' = lp_latencies_by_group s
          \<and> lp_sort_by s' = lp_sort_by s \<and> lp_thread s' = lp_thread s"
proof -
  let ?s1 = "s\<lparr>lp_seen := (if lp_seen s < lp_count s then lp_count s else lp_seen s),
                    lp_report_done := True\<rparr>"
  from assms have a: "\<not> broken (lp_stdout ?s1)"
    "list_all (\<lambda>item. snd item \<noteq> []) (lp_latencies_by_group ?s1)"
    "metric (lp_sort_by ?s1) \<noteq> None"
    by (simp_all add: lp_inv_def)
  from report_output_ok [OF a] obtain data where
    "report_output ?s1 =
           ((lp_stdout ?s1)\<lparr>flushed := flushed (lp_stdout ?s1) @
               [buffer (lp_stdout ?s1) @
                [ClearLine, Table [lp_group_by ?s1, ''avg'', ''p95'', ''p99''] data]],
             buffer := []\<rparr>, None)" by blast
  moreover from assms have "tables (lp_stdout s) = 0" by (simp add: lp_inv_def)
  ultimately show ?thesis using assms
    by (simp add: report_def Let_def tables_flush_table lp_inv_def)
qed

lemma report_inv:
  assumes "lp_inv s"
  shows "\<exists>s'. report s = (s', None) \<and> lp_report_done s' \<and> \<not> broken (lp_stdout s')
          \<and> tables (lp_stdout s') = 1
          \<and> lp_latencies_by_group s' = lp_latencies_by_group s
          \<and> lp_sort_by s' = lp_sort_by s \<and> lp_thread s' = lp_thread s"
proof (cases "lp_report_done s")
  case True
  with assms show ?thesis by (simp add: report_done lp_inv_def)
next
  case False
  from report_fresh [OF assms False] show ?thesis .
qed

lemma modify_nonempty:
  "list_all (\<lambda>item. snd item \<noteq> []) d \<Longrightarrow>
   list_all (\<lambda>item. snd item \<noteq> []) (modify d k [] (\<lambda>l. l @ [x]))"
  by (induction d) auto

lemma wait_iter_inv:
  assumes "lp_inv s" "lp_thread s = Running"
  shows "lp_inv (wait_for_requests_iter s)
       \<and> lp_report_done (wait_for_requests_iter s) = lp_report_done s"
  using assms
  by (auto simp: wait_for_requests_iter_def Let_def stdout_write_def stdout_flush_def
      lp_inv_def modify_nonempty tables_def written_def
      split: list.splits prod.splits sum.splits)

lemma lp_do_inv:
  assumes "lp_inv s"
  shows "\<exists>s'. LatencyPrinter_do s a = Inr s' \<and> lp_inv s'
          \<and> (lp_report_done s \<longrightarrow> lp_report_done s')
          \<and> (a = Cancel \<longrightarrow> lp_report_done s')"
proof (cases a)
  case (OnRequest m)
  with assms show ?thesis by (simp add: LatencyPrinter_request_handler_def lp_inv_def)
next
  case (OnReply m)
  with assms show ?thesis by (simp add: LatencyPrinter_reply_handler_def lp_inv_def)
next
  case (OnEvent m)
  with assms show ?thesis by (simp add: LatencyPrinter_event_handler_def)
next
  case Cancel
  from report_inv [OF assms] obtain s' where
    r: "report s = (s', None)" and p: "lp_report_done s'" "\<not> broken (lp_stdout s')"
      "tables (lp_stdout s') = 1" "lp_latencies_by_group s' = lp_latencies_by_group s"
      "lp_sort_by s' = lp_sort_by s" "lp_thread s' = lp_thread s" by blast
  from p assms have "lp_inv s'" by (simp add: lp_inv_def)
  with Cancel r p(1) show ?thesis by (simp add: LatencyPrinter_cancel_def)
next
  case Tick
  show ?thesis
  proof (cases "lp_thread s = Running")
    case False
    with Tick assms show ?thesis by simp
  next
    case True
    show ?thesis
    proof (cases "lp_seen s < lp_count s")
      case lt: True
      with Tick True wait_iter_inv [OF assms True] show ?thesis
        by (simp add: LatencyPrinter_run_iter_def)
    next
      case False
      from report_inv [OF assms] obtain s' where
        r: "report s = (s', None)" and p: "lp_report_done s'" "\<not> broken (lp_stdout s')"
          "tables (lp_stdout s') = 1" "lp_latencies_by_group s' = lp_latencies_by_group s"
          "lp_sort_by s' = lp_sort_by s" "lp_thread s' = lp_thread s" by blast
      from p assms have "lp_inv (s'\<lparr>lp_thread := Finished\<rparr>)" by (simp add: lp_inv_def)
      with Tick True False r p(1) show ?thesis by (simp add: LatencyPrinter_run_iter_def)
    qed
  qed
qed

lemma lp_exec_inv:
  "lp_inv s \<Longrightarrow>
   \<exists>s'. LatencyPrinter_exec s sched = Inr s' \<and> lp_inv s'
     \<and> (lp_report_done s \<or> Cancel \<in> set sched \<longrightarrow> lp_report_done s')"
proof (induction sched arbitrary: s)
  case Nil
  then show ?case by simp
next
  case (Cons a sched)
  from lp_do_inv [OF Cons.prems, of a] obtain s1 where
    d: "LatencyPrinter_do s a = Inr s1" and i: "lp_inv s1"
    and k: "lp_report_done s \<longrightarrow> lp_report_done s1" "a = Cancel \<longrightarrow> lp_report_done s1"
    by blast
  from Cons.IH [OF i] obtain s' where
    "LatencyPrinter_exec s1 sched = Inr s'" "lp_inv s'"
    "lp_report_done s1 \<or> Cancel \<in> set sched \<longrightarrow> lp_report_done s'" by blast
  with d k show ?case by auto
qed

lemma lp_init_inv:
  "sort_by \<in> {''avg'', ''p95'', ''p99''} \<Longrightarrow> lp_inv (LatencyPrinter_init N g lb d sort_by)"
  by (auto simp: lp_inv_def LatencyPrinter_init_def stdout_init_def metric_def tables_def
      written_def)

lemma lp_exec_append:
  "LatencyPrinter_exec s (xs @ ys) =
     (case LatencyPrinter_exec s xs of Inl e \<Rightarrow> Inl e | Inr s' \<Rightarrow> LatencyPrinter_exec s' ys)"
  by (induction xs arbitrary: s) (simp_all split: sum.splits)

text \<open>
  Calls of \<open>report\<close> taken one at a time, each running to its end before the next
  action. For a sort column accepted by \<open>main\<close> and any run from the initial state, in
  which handler calls, steps of the thread and calls of \<open>cancel\<close> come in any order and
  number: no call raises; the output holds exactly one table once a report has been made
  and none before; the report has been made whenever \<open>cancel\<close> was called or the thread
  has returned; and from then on \<open>report\<close> returns the state unchanged. In every state,
  calling \<open>report\<close> a second time changes nothing and raises nothing.
\<close>

lemma serial_report_once:
  assumes "sort_by \<in> {''avg'', ''p95'', ''p99''}"
  shows "\<exists>s. LatencyPrinter_exec (LatencyPrinter_init N g lb d sort_by) sched = Inr s
         \<and> tables (lp_stdout s) = (if lp_report_done s then 1 else 0)
         \<and> (Cancel \<in> set sched \<longrightarrow> lp_report_done s)
         \<and> (lp_thread s = Finished \<longrightarrow> lp_report_done s)
         \<and> (lp_report_done s \<longrightarrow> report s = (s, None))
         \<and> report (fst (report t)) = (fst (report t), None)"
proof -
  from lp_exec_inv [OF lp_init_inv [OF assms], of N g lb d sched] obtain s where
    e: "LatencyPrinter_exec (LatencyPrinter_init N g lb d sort_by) sched = Inr s"
    and i: "lp_inv s" and c: "Cancel \<in> set sched \<longrightarrow> lp_report_done s" by blast
  from i have "tables (lp_stdout s) = (if lp_report_done s then 1 else 0)"
    and "lp_thread s = Finished \<longrightarrow> lp_report_done s" by (simp_all add: lp_inv_def)
  moreover have "lp_report_done s \<longrightarrow> report s = (s, None)" by (simp add: report_done)
  moreover have "report (fst (report t)) = (fst (report t), None)"
    by (rule report_done [OF report_sets_done])
  ultimately show ?thesis using e c by blast
qed

lemma rank_95: "rank 10 (95 / 100) = 10"
  by (simp add: rank_def)

lemma rank_99: "rank 10 (99 / 100) = 10"
  by (simp add: rank_def)

lemma percentile_ten:
  "percentile [1, 2, 3, 4, 5, 6, 7, 8, 9, 10] (95 / 100) = Some 10"
  "percentile [1, 2, 3, 4, 5, 6, 7, 8, 9, 10] (99 / 100) = Some 10"
proof -
  let ?xs = "[1, 2, 3, 4, 5, 6, 7, 8, 9, 10] :: real list"
  have l: "length ?xs = 10" by simp
  have ne: "?xs \<noteq> []" by simp
  have "percentile ?xs (95 / 100) = Some (?xs ! (rank 10 (95 / 100) - 1))"
    by (simp only: percentile_def l ne if_False)
  then show "percentile ?xs (95 / 100) = Some 10" by (simp only: rank_95) simp
  have "percentile ?xs (99 / 100) = Some (?xs ! (rank 10 (99 / 100) - 1))"
    by (simp only: percentile_def l ne if_False)
  then show "percentile ?xs (99 / 100) = Some 10" by (simp only: rank_99) simp
qed

lemma group_result_ten:
  "group_result [1, 2, 3, 4, 5, 6, 7, 8, 9, 10] = Inr (11 / 2, 10, 10)"
proof -
  let ?xs = "[1, 2, 3, 4, 5, 6, 7, 8, 9, 10] :: real list"
  have s: "sort ?xs = ?xs" by simp
  have a: "sum_list ?xs / real (length ?xs) = 11 / 2" by simp
  have l: "length ?xs \<noteq> 0" by simp
  show ?thesis
    by (simp only: group_result_def l if_False Let_def s a percentile_ten) simp
qed

lemma lp_example:
  "\<exists>s. LatencyPrinter_exec (LatencyPrinter_init 1 ''path'' False 0 ''avg'')
          [OnRequest req_a1, OnReply rep_a1, Tick, Cancel, Tick, Cancel] = Inr s
     \<and> flushed (lp_stdout s) =
         [[Collecting 1 1],
          [ClearLine, Table [''path'', ''avg'', ''p95'', ''p99''] [(''/a/b/c'', 1 / 2, 1 / 2, 1 / 2)]]]
     \<and> lp_thread s = Finished"
  by (simp add: LatencyPrinter_init_def stdout_init_def LatencyPrinter_request_handler_def
      LatencyPrinter_reply_handler_def LatencyPrinter_run_iter_def wait_for_requests_iter_def
      LatencyPrinter_cancel_def report_def report_output_def group_result_def percentile_def
      rank_def sorted_rows_def metric_def key_of_def stdout_write_def stdout_flush_def
      table_pop_def table_add_def getitem_def pop_def add_def Requests_init_def Let_def
      example_defs)

lemma serial_report_once_example:
  "\<exists>s. LatencyPrinter_exec (LatencyPrinter_init 1 ''path'' False 0 ''avg'')
          [OnRequest req_a1, OnReply rep_a1, Tick, Cancel, Tick, Cancel] = Inr s
     \<and> flushed (lp_stdout s) =
         [[Collecting 1 1],
          [ClearLine, Table [''path'', ''avg'', ''p95'', ''p99''] [(''/a/b/c'', 1 / 2, 1 / 2, 1 / 2)]]]
     \<and> tables (lp_stdout s) = 1 \<and> lp_report_done s \<and> report s = (s, None)"
proof -
  let ?sched = "[OnRequest req_a1, OnReply rep_a1, Tick, Cancel, Tick, Cancel]"
  have h: "''avg'' \<in> {''avg'', ''p95'', ''p99''}" by simp
  have c: "Cancel \<in> set ?sched" by simp
  from serial_report_once [OF h, of 1 "''path''" False 0 ?sched] c obtain s where
    e: "LatencyPrinter_exec (LatencyPrinter_init 1 ''path'' False 0 ''avg'') ?sched = Inr s"
    and t: "tables (lp_stdout s) = (if lp_report_done s then 1 else 0)"
    and d: "lp_report_done s" and r: "lp_report_done s \<longrightarrow> report s = (s, None)"
    by blast
  from lp_example e have "flushed (lp_stdout s) =
         [[Collecting 1 1],
          [ClearLine, Table [''path'', ''avg'', ''p95'', ''p99''] [(''/a/b/c'', 1 / 2, 1 / 2, 1 / 2)]]]"
    by auto
  with e t d r show ?thesis by auto
qed

section \<open>Calls of report that overlap\<close>

lemma report_steps:
  "report s =
     (if report_guard s then (s, None)
      else report_write (report_set_done (report_force_seen s)))"
  by (simp add: report_def report_guard_def report_write_def report_set_done_def
      report_force_seen_def Let_def split: prod.splits)

text \<open>
  The statements put together again give the method: a caller that runs through
  \<^verbatim>\<open>report\<close> with no statement of the other caller in between does what \<open>report\<close> does.
\<close>

lemma main_turns_alone:
  assumes "main_pc r = Before"
  shows "main_turn (main_turn (main_turn (main_turn (main_turn r)))) =
           r\<lparr>lat := fst (report (lat r)), main_pc := Returned,
             main_raised := snd (report (lat r))\<rparr>"
  using assms
  by (cases "report_write (report_set_done (report_force_seen (lat r)))")
     (simp add: main_turn_def report_steps report_guard_def)

lemma printer_turns_alone:
  assumes "printer_pc r = Before" "lp_thread (lat r) = Running"
    "\<not> lp_seen (lat r) < lp_count (lat r)"
  shows "lat (printer_turn (printer_turn (printer_turn (printer_turn (printer_turn r))))) =
           LatencyPrinter_run_iter (lat r)"
proof (cases "lp_report_done (lat r)")
  case True
  with assms show ?thesis
    by (simp add: printer_turn_def LatencyPrinter_run_iter_def report_steps report_guard_def)
next
  case False
  obtain l e where w: "report_write (report_set_done (report_force_seen (lat r))) = (l, e)"
    by (cases "report_write (report_set_done (report_force_seen (lat r)))")
  with False assms show ?thesis
    by (cases e)
       (simp_all add: printer_turn_def LatencyPrinter_run_iter_def report_steps
          report_guard_def)
qed

text \<open>
  C3. The summary is not written exactly once for every interleaving. A latency engine
  with target 5 has matched one pair when the run is interrupted. The main thread enters
  \<^verbatim>\<open>report\<close> through \<^verbatim>\<open>cancel\<close>, passes the guard and raises \<open>_seen\<close> to \<open>_count\<close>; this
  ends the printer thread's loop, and the printer thread enters \<^verbatim>\<open>report\<close> and passes the
  guard as well, because the flag is not set yet. Both callers then set the flag and
  write: the output holds the table twice.
\<close>

theorem report_race_prints_twice:
  "flushed (lp_stdout (lat (race_exec
      (race_init (LatencyPrinter_init 5 ''path'' False 0 ''avg''))
      [SnifferRequest req_a1, SnifferReply rep_a1, PrinterTurn,
       MainTurn, MainTurn, MainTurn,
       PrinterTurn, PrinterTurn,
       MainTurn, MainTurn,
       PrinterTurn, PrinterTurn, PrinterTurn])))
     = [[Collecting 1 5],
        [ClearLine, Table [''path'', ''avg'', ''p95'', ''p99''] [(''/a/b/c'', 1 / 2, 1 / 2, 1 / 2)]],
        [ClearLine, Table [''path'', ''avg'', ''p95'', ''p99''] [(''/a/b/c'', 1 / 2, 1 / 2, 1 / 2)]]]
   \<and> tables (lp_stdout (lat (race_exec
      (race_init (LatencyPrinter_init 5 ''path'' False 0 ''avg''))
      [SnifferRequest req_a1, SnifferReply rep_a1, PrinterTurn,
       MainTurn, MainTurn, MainTurn,
       PrinterTurn, PrinterTurn,
       MainTurn, MainTurn,
       PrinterTurn, PrinterTurn, PrinterTurn]))) = 2"
  by (simp add: race_exec_def race_init_def deliver_def printer_turn_def main_turn_def
      report_guard_def report_force_seen_def report_set_done_def report_write_def
      tables_def written_def
      LatencyPrinter_init_def stdout_init_def LatencyPrinter_request_handler_def
      LatencyPrinter_reply_handler_def wait_for_requests_iter_def
      report_output_def group_result_def percentile_def
      rank_def sorted_rows_def metric_def key_of_def stdout_write_def stdout_flush_def
      table_pop_def table_add_def getitem_def pop_def add_def Requests_init_def Let_def
      example_defs)

section \<open>Mean and percentiles\<close>

lemma rank_bounds:
  assumes "0 < n" "0 \<le> p" "p \<le> 1"
  shows "1 \<le> rank n p \<and> rank n p \<le> n \<and> p * real n \<le> real (rank n p)
       \<and> (rank n p = 1 \<or> real (rank n p) < p * real n + 1)"
proof -
  let ?c = "\<lceil>p * real n\<rceil>"
  have "p * real n \<le> 1 * real n" using assms by (intro mult_right_mono) simp_all
  then have "p * real n \<le> of_int (int n)" by simp
  then have cn: "?c \<le> int n" by (rule ceiling_le)
  have lo: "p * real n \<le> of_int ?c" by (rule le_of_int_ceiling)
  have hi: "of_int ?c < p * real n + 1" by linarith
  have r: "int (rank n p) = max 1 ?c" using cn assms(1) by (simp add: rank_def)
  show ?thesis
  proof (cases "?c \<le> 1")
    case True
    with r have "rank n p = 1" by simp
    moreover from True lo have "p * real n \<le> 1" by linarith
    ultimately show ?thesis using assms(1) by simp
  next
    case False
    with r have e: "int (rank n p) = ?c" by simp
    then have re: "real (rank n p) = of_int ?c" by (metis of_int_of_nat_eq)
    from e False have r1: "1 \<le> rank n p" by linarith
    from e cn have r2: "rank n p \<le> n" by linarith
    from re lo have r3: "p * real n \<le> real (rank n p)" by simp
    from re hi have r4: "real (rank n p) < p * real n + 1" by simp
    from r1 r2 r3 r4 show ?thesis by blast
  qed
qed

lemma sorted_rows_single:
  "sb \<in> {''avg'', ''p95'', ''p99''} \<Longrightarrow> sorted_rows sb [row] = Inr [row]"
  by (auto simp: sorted_rows_def metric_def)

text \<open>
  C9. The percentile helper is modelled from the spec: nearest rank \<open>ceil(p * n)\<close>, counted
  from 1 and clamped to \<open>[1, n]\<close>, with no interpolation. For one group with the samples
  1, 2, ..., 10, \<open>report\<close> writes and flushes, after the carriage return, the table with the single
  row (group, 5.5, 10, 10) and raises nothing; the first column of any group's result is
  the sum of its samples divided by their number; and for a non-empty sample and
  \<open>0 \<le> p \<le> 1\<close> the percentile is the element at a rank \<open>r\<close> with \<open>1 \<le> r \<le> n\<close> that is
  the least integer not below \<open>p * n\<close>, or 1 if that is smaller.
\<close>

theorem latency_summary_ten_samples:
  assumes lat: "lp_latencies_by_group s = [(g, [1, 2, 3, 4, 5, 6, 7, 8, 9, 10])]"
    and nd: "\<not> lp_report_done s"
    and nb: "\<not> broken (lp_stdout s)"
    and sb: "lp_sort_by s \<in> {''avg'', ''p95'', ''p99''}"
    and xs: "xs \<noteq> []" and p: "0 \<le> p" "p \<le> 1"
  shows "group_result [1, 2, 3, 4, 5, 6, 7, 8, 9, 10] = Inr (11 / 2, 10, 10)
       \<and> snd (report s) = None
       \<and> lp_stdout (fst (report s)) =
           (lp_stdout s)\<lparr>flushed := flushed (lp_stdout s) @
              [buffer (lp_stdout s) @
               [ClearLine, Table [lp_group_by s, ''avg'', ''p95'', ''p99''] [(g, 11 / 2, 10, 10)]]],
            buffer := []\<rparr>
       \<and> (group_result l = Inr (a, b, c) \<longrightarrow>
            a = sum_list l / real (length l)
            \<and> percentile (sort l) (95 / 100) = Some b
            \<and> percentile (sort l) (99 / 100) = Some c)
       \<and> (\<exists>r. 1 \<le> r \<and> r \<le> length xs \<and> p * real (length xs) \<le> real r
              \<and> (r = 1 \<or> real r < p * real (length xs) + 1)
              \<and> percentile xs p = Some (xs ! (r - 1)))"
proof -
  let ?s1 = "s\<lparr>lp_seen := (if lp_seen s < lp_count s then lp_count s else lp_seen s),
                    lp_report_done := True\<rparr>"
  have gr: "group_results (lp_latencies_by_group ?s1) = Inr [(g, 11 / 2, 10, 10)]"
    using lat by (simp add: group_result_ten)
  have "report_output ?s1 =
           ((lp_stdout s)\<lparr>flushed := flushed (lp_stdout s) @
              [buffer (lp_stdout s) @
               [ClearLine, Table [lp_group_by s, ''avg'', ''p95'', ''p99''] [(g, 11 / 2, 10, 10)]]],
            buffer := []\<rparr>, None)"
    using nb sb gr sorted_rows_single [of "lp_sort_by s" "(g, 11 / 2, 10, 10)"]
    by (simp add: report_output_def stdout_write_def stdout_flush_def)
  with nd have rep: "snd (report s) = None \<and> lp_stdout (fst (report s)) =
           (lp_stdout s)\<lparr>flushed := flushed (lp_stdout s) @
              [buffer (lp_stdout s) @
               [ClearLine, Table [lp_group_by s, ''avg'', ''p95'', ''p99''] [(g, 11 / 2, 10, 10)]]],
            buffer := []\<rparr>"
    by (simp add: report_def Let_def)
  have mean: "group_result l = Inr (a, b, c) \<longrightarrow>
            a = sum_list l / real (length l)
            \<and> percentile (sort l) (95 / 100) = Some b
            \<and> percentile (sort l) (99 / 100) = Some c"
    by (auto simp: group_result_def Let_def split: if_splits option.splits)
  from xs have "0 < length xs" by simp
  from rank_bounds [OF this p] xs
  have "\<exists>r. 1 \<le> r \<and> r \<le> length xs \<and> p * real (length xs) \<le> real r
              \<and> (r = 1 \<or> real r < p * real (length xs) + 1)
              \<and> percentile xs p = Some (xs ! (r - 1))"
    by (intro exI [of _ "rank (length xs) p"]) (simp add: percentile_def)
  with group_result_ten rep mean show ?thesis by blast
qed

theorem latency_summary_ten_samples_witness:
  "snd (report lp_ten) = None
   \<and> flushed (lp_stdout (fst (report lp_ten))) =
       [[ClearLine, Table [''path'', ''avg'', ''p95'', ''p99''] [(''/a/b/c'', 11 / 2, 10, 10)]]]
   \<and> group_result [1, 2, 3, 4, 5, 6, 7, 8, 9, 10] = Inr (11 / 2, 10, 10)
   \<and> percentile (sort [1, 2, 3, 4, 5, 6, 7, 8, 9, 10]) (95 / 100) = Some 10
   \<and> percentile (sort [1, 2, 3, 4, 5, 6, 7, 8, 9, 10]) (99 / 100) = Some 10
   \<and> (\<exists>r. 1 \<le> r \<and> r \<le> length [1, 2, 3 :: real]
          \<and> (1 / 2) * real (length [1, 2, 3 :: real]) \<le> real r
          \<and> percentile [1, 2, 3] (1 / 2) = Some ([1, 2, 3] ! (r - 1)))"
proof -
  let ?ten = "[1, 2, 3, 4, 5, 6, 7, 8, 9, 10] :: real list"
  have lat: "lp_latencies_by_group lp_ten = [(''/a/b/c'', ?ten)]"
    by (simp add: lp_ten_def)
  have nd: "\<not> lp_report_done lp_ten" by (simp add: lp_ten_def LatencyPrinter_init_def)
  have nb: "\<not> broken (lp_stdout lp_ten)"
    by (simp add: lp_ten_def LatencyPrinter_init_def stdout_init_def)
  have sb: "lp_sort_by lp_ten \<in> {''avg'', ''p95'', ''p99''}"
    by (simp add: lp_ten_def LatencyPrinter_init_def)
  have xs: "[1, 2, 3 :: real] \<noteq> []" by simp
  have p: "(0::real) \<le> 1 / 2" "(1::real) / 2 \<le> 1" by simp_all
  note inst = latency_summary_ten_samples [OF lat nd nb sb xs p, of ?ten "11 / 2" 10 10]
  from inst have g: "group_result ?ten = Inr (11 / 2, 10, 10)" by blast
  from inst g have pc: "percentile (sort ?ten) (95 / 100) = Some 10
      \<and> percentile (sort ?ten) (99 / 100) = Some 10" by blast
  from inst have r: "snd (report lp_ten) = None" by blast
  from inst have "lp_stdout (fst (report lp_ten)) =
           (lp_stdout lp_ten)\<lparr>flushed := flushed (lp_stdout lp_ten) @
              [buffer (lp_stdout lp_ten) @
               [ClearLine, Table [lp_group_by lp_ten, ''avg'', ''p95'', ''p99'']
                  [(''/a/b/c'', 11 / 2, 10, 10)]]],
            buffer := []\<rparr>" by blast
  then have f: "flushed (lp_stdout (fst (report lp_ten))) =
       [[ClearLine, Table [''path'', ''avg'', ''p95'', ''p99''] [(''/a/b/c'', 11 / 2, 10, 10)]]]"
    by (simp add: lp_ten_def LatencyPrinter_init_def stdout_init_def)
  from inst have "\<exists>r. 1 \<le> r \<and> r \<le> length [1, 2, 3 :: real]
          \<and> (1 / 2) * real (length [1, 2, 3 :: real]) \<le> real r
          \<and> (r = 1 \<or> real r < (1 / 2) * real (length [1, 2, 3 :: real]) + 1)
          \<and> percentile [1, 2, 3] (1 / 2) = Some ([1, 2, 3] ! (r - 1))" by blast
  then have e: "\<exists>r. 1 \<le> r \<and> r \<le> length [1, 2, 3 :: real]
          \<and> (1 / 2) * real (length [1, 2, 3 :: real]) \<le> real r
          \<and> percentile [1, 2, 3] (1 / 2) = Some ([1, 2, 3] ! (r - 1))" by auto
  from r f g pc e show ?thesis by blast
qed

section \<open>Cancelling a summarizing engine\<close>





section \<open>Loopback interfaces\<close>

lemma dp_run_iter_loopback: "dp_loopback (DefaultPrinter_run_iter s) = dp_loopback s"
  by (simp add: DefaultPrinter_run_iter_def Let_def
      split: list.splits prod.splits sum.splits error.splits)

lemma dp_do_loopback: "DefaultPrinter_do s a = Inr s' \<Longrightarrow> dp_loopback s' = dp_loopback s"
  by (cases a)
     (auto simp: DefaultPrinter_request_handler_def DefaultPrinter_reply_handler_def
        DefaultPrinter_event_handler_def DefaultPrinter_cancel_def dp_run_iter_loopback
        split: if_splits sum.splits)

lemma dp_exec_loopback:
  "DefaultPrinter_exec s sched = Inr s' \<Longrightarrow> dp_loopback s' = dp_loopback s"
proof (induction sched arbitrary: s)
  case Nil
  then show ?case by simp
next
  case (Cons a sched)
  from Cons.prems obtain s1 where
    d: "DefaultPrinter_do s a = Inr s1" and e: "DefaultPrinter_exec s1 sched = Inr s'"
    by (auto split: sum.splits)
  from Cons.IH [OF e] dp_do_loopback [OF d] show ?case by simp
qed

lemma main_loopback:
  "main opts = Inr p \<Longrightarrow>
   printer_loopback p \<longleftrightarrow> opt_iface opts = ''lo'' \<or> opt_iface opts = ''lo0''"
  by (auto simp: main_def Let_def CountPrinter_init_def LatencyPrinter_init_def
      UnpairedPrinter_init_def DefaultPrinter_init_def
      split: if_splits sum.splits)

text \<open>
  C10. Whatever printer \<open>main\<close> builds, its loopback flag is set exactly when the
  interface option is \<open>lo\<close> or \<open>lo0\<close>. In particular, when \<open>main\<close> builds the paired engine
  for any other interface, then after any run a reply that meets a non-empty list of
  buffered requests is printed after every request of that list, duplicates included.
\<close>

theorem loopback_only_for_lo:
  "(main opts = Inr p \<longrightarrow>
      (printer_loopback p \<longleftrightarrow> opt_iface opts = ''lo'' \<or> opt_iface opts = ''lo0''))
   \<and> (main opts = Inr (PDefault dp) \<and> opt_iface opts \<noteq> ''lo'' \<and> opt_iface opts \<noteq> ''lo0''
      \<and> DefaultPrinter_exec dp sched = Inr s \<and> dp_replies s = rep # q
      \<and> buffered (dp_requests_by_client s) (key rep) = reqs \<and> reqs \<noteq> []
      \<and> \<not> broken (dp_stdout s)
      \<longrightarrow> flushed (dp_stdout (DefaultPrinter_run_iter s)) =
            flushed (dp_stdout s) @
              [buffer (dp_stdout s) @ group (dp_colors s) (reqs @ [rep])])"
proof (intro conjI impI)
  assume "main opts = Inr p"
  then show "printer_loopback p \<longleftrightarrow> opt_iface opts = ''lo'' \<or> opt_iface opts = ''lo0''"
    by (rule main_loopback)
next
  assume a: "main opts = Inr (PDefault dp) \<and> opt_iface opts \<noteq> ''lo'' \<and> opt_iface opts \<noteq> ''lo0''
      \<and> DefaultPrinter_exec dp sched = Inr s \<and> dp_replies s = rep # q
      \<and> buffered (dp_requests_by_client s) (key rep) = reqs \<and> reqs \<noteq> []
      \<and> \<not> broken (dp_stdout s)"
  then have "\<not> printer_loopback (PDefault dp)" using main_loopback [of opts "PDefault dp"]
    by simp
  with a have "\<not> dp_loopback s" using dp_exec_loopback [of dp sched s] by simp
  moreover from a have "dp_replies s = rep # q"
    "buffered (dp_requests_by_client s) (key rep) = reqs" "reqs \<noteq> []"
    "\<not> broken (dp_stdout s)" by simp_all
  from run_iter_matched [OF this]
  have "DefaultPrinter_run_iter s =
           s\<lparr>dp_replies := q,
             dp_requests_by_client :=
               snd (table_pop (dp_requests_by_client s) (client rep) (xid rep)),
             dp_stdout := (dp_stdout s)
               \<lparr>flushed := flushed (dp_stdout s) @
                  [buffer (dp_stdout s) @
                   group (dp_colors s)
                     ((if dp_loopback s then take 1 reqs else reqs) @ [rep])],
                buffer := []\<rparr>\<rparr>" .
  ultimately show "flushed (dp_stdout (DefaultPrinter_run_iter s)) =
            flushed (dp_stdout s) @
              [buffer (dp_stdout s) @ group (dp_colors s) (reqs @ [rep])]"
    by simp
qed

theorem loopback_only_for_lo_witness:
  "main (default_options ''lo1'') = Inr (PDefault (DefaultPrinter_init False False))
   \<and> \<not> printer_loopback (PDefault (DefaultPrinter_init False False))
   \<and> main (default_options ''LO'') = Inr (PDefault (DefaultPrinter_init False False))
   \<and> main (default_options ''lo'') = Inr (PDefault (DefaultPrinter_init False True))
   \<and> printer_loopback (PDefault (DefaultPrinter_init False True))
   \<and> main (default_options ''lo0'') = Inr (PDefault (DefaultPrinter_init False True))
   \<and> DefaultPrinter_exec (DefaultPrinter_init False False)
         [OnRequest req_a1, OnRequest req_a1_dup, OnReply rep_a1]
       = Inr ((DefaultPrinter_init False False)
               \<lparr>dp_requests_by_client := table_add (table_add Map.empty req_a1) req_a1_dup,
                dp_replies := [rep_a1]\<rparr>)
   \<and> flushed (dp_stdout (DefaultPrinter_run_iter
         ((DefaultPrinter_init False False)
            \<lparr>dp_requests_by_client := table_add (table_add Map.empty req_a1) req_a1_dup,
             dp_replies := [rep_a1]\<rparr>)))
       = [[Formatted None 0 req_a1, Formatted None 1 req_a1_dup, Formatted None 2 rep_a1]]"
proof -
  let ?dp = "DefaultPrinter_init False False"
  let ?sched = "[OnRequest req_a1, OnRequest req_a1_dup, OnReply rep_a1]"
  let ?s = "?dp\<lparr>dp_requests_by_client := table_add (table_add Map.empty req_a1) req_a1_dup,
                dp_replies := [rep_a1]\<rparr>"
  have m1: "main (default_options ''lo1'') = Inr (PDefault ?dp)"
    by (simp add: main_def default_options_def)
  have m2: "main (default_options ''LO'') = Inr (PDefault ?dp)"
    by (simp add: main_def default_options_def)
  have m3: "main (default_options ''lo'') = Inr (PDefault (DefaultPrinter_init False True))"
    by (simp add: main_def default_options_def)
  have m4: "main (default_options ''lo0'') = Inr (PDefault (DefaultPrinter_init False True))"
    by (simp add: main_def default_options_def)
  have i1: "opt_iface (default_options ''lo1'') \<noteq> ''lo''"
    "opt_iface (default_options ''lo1'') \<noteq> ''lo0''"
    by (simp_all add: default_options_def)
  have i3: "opt_iface (default_options ''lo'') = ''lo''" by (simp add: default_options_def)
  have e: "DefaultPrinter_exec ?dp ?sched = Inr ?s"
    by (simp add: DefaultPrinter_init_def DefaultPrinter_request_handler_def
        DefaultPrinter_reply_handler_def example_defs)
  have r: "dp_replies ?s = rep_a1 # []" by simp
  have b: "buffered (dp_requests_by_client ?s) (key rep_a1) = [req_a1, req_a1_dup]"
    by (simp add: buffered_table_add key_def example_defs)
  have ne: "[req_a1, req_a1_dup] \<noteq> []" by simp
  have nb: "\<not> broken (dp_stdout ?s)" by (simp add: DefaultPrinter_init_def stdout_init_def)
  note inst = loopback_only_for_lo [of "default_options ''lo1''" "PDefault ?dp" ?dp ?sched ?s
      rep_a1 "[]" "[req_a1, req_a1_dup]"]
  from inst m1 i1 have l1: "\<not> printer_loopback (PDefault ?dp)" by blast
  from loopback_only_for_lo [of "default_options ''lo''"
      "PDefault (DefaultPrinter_init False True)"] m3 i3
  have l3: "printer_loopback (PDefault (DefaultPrinter_init False True))" by blast
  from inst m1 i1 e r b ne nb
  have "flushed (dp_stdout (DefaultPrinter_run_iter ?s)) =
            flushed (dp_stdout ?s) @
              [buffer (dp_stdout ?s) @ group (dp_colors ?s) ([req_a1, req_a1_dup] @ [rep_a1])]"
    by blast
  then have f: "flushed (dp_stdout (DefaultPrinter_run_iter ?s))
       = [[Formatted None 0 req_a1, Formatted None 1 req_a1_dup, Formatted None 2 rep_a1]]"
    by (simp add: DefaultPrinter_init_def stdout_init_def group_def)
  from m1 l1 m2 m3 l3 m4 e f show ?thesis by blast
qed

end
